(* ===== verification/Straw_Prelude.thy ===== *)
theory Straw_Prelude
  imports Main "HOL-Library.Word"
begin

text \<open>
  The shared base of the development: the names of the machine types the Go code uses, the
  generic filter "a gate that looks at one message after the other", whose contract is the
  locale \<open>frame_gate\<close>, and the few facts about words and lists the components share.
  A Go \<open>uint64\<close> is a \<open>64 word\<close>, a \<open>uint32\<close> a \<open>32 word\<close>, an \<open>int64\<close> a
  \<open>64 word\<close> read with \<open>sint\<close>, a \<open>[]byte\<close> a list of \<open>8 word\<close>, a \<open>string\<close> the list
  of its bytes as characters. A pointer that may be nil is an \<open>option\<close>.
\<close>

section \<open>Machine types\<close>

type_synonym byte = "8 word"
type_synonym bytes = "byte list"
type_synonym u32 = "32 word"
type_synonym u64 = "64 word"
type_synonym i64 = "64 word"

text \<open>The length of a slice as the code takes it: \<open>uint64(len(b))\<close>.\<close>

definition ulen :: "'a list \<Rightarrow> u64" where
  "ulen xs = of_nat (length xs)"

text \<open>
  A slice length is a Go \<open>int\<close>, so it is below \<open>2 ^ 63\<close> on every platform; the
  conversion to \<open>uint64\<close> is then exact.
\<close>

definition go_slice :: "'a list \<Rightarrow> bool" where
  "go_slice xs \<longleftrightarrow> length xs < 2 ^ 63"

named_theorems slice_simps \<open>conversions between list lengths and machine words\<close>
named_theorems gate_simps \<open>equations of the gates and of their runs\<close>
named_theorems wire_simps \<open>the getters of the protocol messages\<close>

lemma unat_ulen [slice_simps]: "go_slice xs \<Longrightarrow> unat (ulen xs) = length xs"
  by (simp add: ulen_def go_slice_def unat_of_nat)

lemma unat_ulen_64: "length xs < 2 ^ 64 \<Longrightarrow> unat (ulen xs) = length xs"
  by (simp add: ulen_def unat_of_nat)

lemma ulen_Nil [simp]: "ulen [] = 0"
  by (simp add: ulen_def)

lemma go_slice_Nil [simp]: "go_slice []"
  by (simp add: go_slice_def)

lemma ulen_append: "ulen (xs @ ys) = ulen xs + ulen ys"
  by (simp add: ulen_def)

lemma unat_sub_le [slice_simps]: "(b::'a::len word) \<le> a \<Longrightarrow> unat (a - b) = unat a - unat b"
  by (simp add: unat_sub)

lemma unat_add_no_wrap:
  fixes a b :: "'a::len word"
  assumes "unat a + unat b < 2 ^ LENGTH('a)"
  shows "unat (a + b) = unat a + unat b"
  using assms by (simp add: unat_word_ariths)

lemma unat_Suc_word:
  fixes a :: "'a::len word"
  assumes "a + 1 \<noteq> 0"
  shows "unat (a + 1) = Suc (unat a)"
  using assms unatSuc [of a] by (simp add: add.commute)

lemma unat_less_64: "unat (w :: 64 word) < 2 ^ 64"
  using unsigned_less [of w, where ?'a = nat] by simp

lemma sint_small:
  assumes "unat (w :: 64 word) < 2 ^ 63"
  shows "sint w = int (unat w)"
proof -
  have "int (unat w) < int (2 ^ 63)" using assms by (simp only: of_nat_less_iff)
  then have "uint w < 2 ^ 63" by simp
  moreover have "- (2 ^ 63) \<le> uint w" by (rule order_trans [of _ 0]) simp_all
  ultimately have "signed_take_bit 63 (uint w) = uint w" by (intro signed_take_bit_int_eq_self)
  then show ?thesis by (simp add: sint_uint)
qed

lemma drop_length_less: "0 < n \<Longrightarrow> xs \<noteq> [] \<Longrightarrow> length (drop n xs) < length xs"
  by (cases xs) auto

text \<open>A separator that occurs in neither head splits a list in one way only.\<close>

lemma split_at_separator:
  assumes "c \<notin> set xs" and "c \<notin> set ys"
  shows "xs @ c # us = ys @ c # vs \<longleftrightarrow> xs = ys \<and> us = vs"
  using assms
proof (induction xs arbitrary: ys)
  case Nil
  then show ?case by (cases ys) auto
next
  case (Cons x xs)
  then show ?case by (cases ys) auto
qed

section \<open>Gates\<close>

text \<open>
  A gate is a state and a step that looks at a message and says whether it passes.
  \<open>gate_run\<close> is the state after a list of messages, \<open>gate_passed\<close> the messages that passed.
\<close>

fun gate_run :: "('s \<Rightarrow> 'x \<Rightarrow> bool \<times> 's) \<Rightarrow> 's \<Rightarrow> 'x list \<Rightarrow> 's" where
  "gate_run step s [] = s"
| "gate_run step s (x # xs) = gate_run step (snd (step s x)) xs"

fun gate_passed :: "('s \<Rightarrow> 'x \<Rightarrow> bool \<times> 's) \<Rightarrow> 's \<Rightarrow> 'x list \<Rightarrow> 'x list" where
  "gate_passed step s [] = []"
| "gate_passed step s (x # xs) =
     (if fst (step s x) then x # gate_passed step (snd (step s x)) xs
      else gate_passed step (snd (step s x)) xs)"

lemma gate_run_append [gate_simps]:
  "gate_run step s (xs @ ys) = gate_run step (gate_run step s xs) ys"
  by (induction xs arbitrary: s) auto

lemma gate_passed_append [gate_simps]:
  "gate_passed step s (xs @ ys) = gate_passed step s xs @ gate_passed step (gate_run step s xs) ys"
  by (induction xs arbitrary: s) auto

lemma gate_passed_subset: "set (gate_passed step s xs) \<subseteq> set xs"
  by (induction xs arbitrary: s) (auto split: if_splits)

lemma gate_passed_length: "length (gate_passed step s xs) \<le> length xs"
proof (induction xs arbitrary: s)
  case (Cons x xs)
  then show ?case using Cons.IH [of "snd (step s x)"] by (auto simp: le_SucI)
qed simp

text \<open>When a whole list passes, so do its two halves, one after the other.\<close>

lemma gate_passed_all_append:
  assumes "gate_passed step s (xs @ ys) = xs @ ys"
  shows "gate_passed step s xs = xs \<and> gate_passed step (gate_run step s xs) ys = ys"
  using assms
proof (induction xs arbitrary: s)
  case (Cons x xs)
  have "fst (step s x)"
    using Cons.prems gate_passed_length [of step "snd (step s x)" "xs @ ys"]
    by (cases "fst (step s x)") auto
  then show ?case using Cons by simp
qed simp

section \<open>Runs of a step function\<close>

text \<open>
  A concurrent component is a partial step function on events; a run is a list of events each of
  which is enabled, so a list of events is one interleaving.
\<close>

fun run_steps :: "('e \<Rightarrow> 's \<Rightarrow> 's option) \<Rightarrow> 'e list \<Rightarrow> 's \<Rightarrow> 's option" where
  "run_steps step [] s = Some s"
| "run_steps step (e # es) s = (case step e s of None \<Rightarrow> None | Some t \<Rightarrow> run_steps step es t)"

lemma run_steps_append:
  "run_steps step (es @ fs) s = (case run_steps step es s of None \<Rightarrow> None | Some t \<Rightarrow> run_steps step fs t)"
  by (induction es arbitrary: s) (auto split: option.splits)

text \<open>An invariant of a run may speak of the events so far.\<close>

lemma run_steps_invariant:
  assumes "run_steps step es s = Some t" and "P [] s"
    and "\<And>ds u e u'. run_steps step ds s = Some u \<Longrightarrow> P ds u \<Longrightarrow> step e u = Some u' \<Longrightarrow> P (ds @ [e]) u'"
  shows "P es t"
  using assms(1)
proof (induction es arbitrary: t rule: rev_induct)
  case Nil
  then show ?case using assms(2) by simp
next
  case (snoc e es)
  then obtain u where "run_steps step es s = Some u" and "step e u = Some t"
    by (auto simp: run_steps_append split: option.splits)
  then show ?case using snoc.IH assms(3) by blast
qed

lemma run_steps_stable:
  "run_steps step es s = Some t \<Longrightarrow> P s \<Longrightarrow> (\<And>e u u'. step e u = Some u' \<Longrightarrow> P u \<Longrightarrow> P u') \<Longrightarrow> P t"
  by (induction es arbitrary: s) (auto split: option.splits)

text \<open>
  A concurrent component that winds down: of its events some are its own, the rest is what others
  may still do to it. Every own step leaves less work, and as long as the component has not finished
  some own step is possible. Then its own steps cannot go on for ever, in whatever order they are
  scheduled, and they stop only where it has finished.
\<close>

locale winding_down =
  fixes step :: "'e \<Rightarrow> 's \<Rightarrow> 's option" and own :: "'e \<Rightarrow> bool" and work :: "'s \<Rightarrow> nat"
    and ready :: "'s \<Rightarrow> bool" and finished :: "'s \<Rightarrow> bool"
  assumes own_ready: "ready s \<Longrightarrow> own e \<Longrightarrow> step e s = Some t \<Longrightarrow> ready t"
    and own_work: "ready s \<Longrightarrow> own e \<Longrightarrow> step e s = Some t \<Longrightarrow> work t < work s"
    and own_possible: "ready s \<Longrightarrow> \<not> finished s \<Longrightarrow> \<exists>e t. own e \<and> step e s = Some t"
begin

lemma own_run:
  "run_steps step es s = Some t \<Longrightarrow> ready s \<Longrightarrow> list_all own es \<Longrightarrow> ready t \<and> length es + work t \<le> work s"
proof (induction es arbitrary: s)
  case (Cons e es)
  then obtain u where u: "step e s = Some u" "run_steps step es u = Some t" by (auto split: option.splits)
  then show ?case using Cons.IH [OF u(2)] Cons.prems own_ready [OF _ _ u(1)] own_work [OF _ _ u(1)] by simp
qed simp

lemma own_run_stops_finished:
  assumes "run_steps step es s = Some t" and "ready s" and "list_all own es"
  shows "length es \<le> work s \<and> (finished t \<or> (\<exists>e u. own e \<and> step e t = Some u))"
  using own_run [OF assms] own_possible by auto

lemma own_run_exists: "ready s \<Longrightarrow> \<exists>es t. list_all own es \<and> run_steps step es s = Some t \<and> finished t"
proof (induction "work s" arbitrary: s rule: less_induct)
  case less
  show ?case
  proof (cases "finished s")
    case True
    then show ?thesis by (intro exI [of _ "[]"]) simp
  next
    case False
    from own_possible [OF less.prems False] obtain e u where e: "own e" "step e s = Some u" by blast
    from less.hyps [OF own_work [OF less.prems e] own_ready [OF less.prems e]]
    obtain es t where "list_all own es" "run_steps step es u = Some t" "finished t" by blast
    with e show ?thesis by (intro exI [of _ "e # es"] exI [of _ t]) simp
  qed
qed

end

text \<open>
  An at-least-once channel: every message of the first list is delivered in order, and after
  it has been delivered any message with the same key may come again, at any later point.
\<close>

inductive redelivers :: "('x \<Rightarrow> 'k) \<Rightarrow> 'x list \<Rightarrow> 'x list \<Rightarrow> bool" for key where
  redelivers_Nil: "redelivers key [] []"
| redelivers_new: "redelivers key xs ys \<Longrightarrow> redelivers key (xs @ [x]) (ys @ [x])"
| redelivers_dup: "redelivers key xs ys \<Longrightarrow> x \<in> set xs \<Longrightarrow> key y = key x \<Longrightarrow> redelivers key xs (ys @ [y])"

inductive_cases redelivers_NilE: "redelivers key [] ys"

text \<open>
  The contract of a gate: a message that does not pass leaves no trace in the state. Every
  component that reads frames through the validator relies on this law.
\<close>

locale frame_gate =
  fixes step :: "'s \<Rightarrow> 'x \<Rightarrow> bool \<times> 's"
  assumes reject_keeps: "\<not> fst (step s x) \<Longrightarrow> snd (step s x) = s"
begin

lemma run_passed: "gate_run step s (gate_passed step s xs) = gate_run step s xs"
  by (induction xs arbitrary: s) (auto simp: reject_keeps)

lemma passed_passed: "gate_passed step s (gate_passed step s xs) = gate_passed step s xs"
  by (induction xs arbitrary: s) (auto simp: reject_keeps)

lemma run_all_rejected: "gate_passed step s xs = [] \<Longrightarrow> gate_run step s xs = s"
  using run_passed [of s xs] by simp

end

text \<open>
  A gate that lets each key pass at most once, whatever happens after it: then redelivery is
  invisible, the passed list is the list that was sent.
\<close>

locale once_gate = frame_gate step
  for step :: "'s \<Rightarrow> 'x \<Rightarrow> bool \<times> 's" +
  fixes key :: "'x \<Rightarrow> 'k"
  assumes once: "fst (step s x) \<Longrightarrow> key y = key x \<Longrightarrow>
    \<not> fst (step (gate_run step (snd (step s x)) zs) y)"
begin

lemma passed_never_again:
  assumes "gate_passed step s xs = xs" and "x \<in> set xs" and "key y = key x"
  shows "\<not> fst (step (gate_run step s xs) y)"
proof -
  from assms(2) obtain us vs where xs: "xs = us @ x # vs" by (auto dest: split_list)
  let ?s = "gate_run step s us"
  have "gate_passed step ?s ([x] @ vs) = [x] @ vs"
    using assms(1) gate_passed_all_append [of step s us "x # vs"] by (simp add: xs)
  then have "gate_passed step ?s [x] = [x]"
    by (rule gate_passed_all_append [THEN conjunct1])
  then have "fst (step ?s x)" by (simp split: if_splits)
  then show ?thesis using once [OF _ assms(3), of ?s vs] by (simp add: xs gate_simps)
qed

lemma redelivered_refused:
  assumes "x \<in> set (gate_passed step s xs)" and "key y = key x"
  shows "\<not> fst (step (gate_run step s xs) y)"
  using passed_never_again [OF passed_passed assms] by (simp add: run_passed)

lemma redelivery_dropped:
  assumes "x \<in> set (gate_passed step s xs)" and "key y = key x"
  shows "gate_passed step s (xs @ y # ys) = gate_passed step s (xs @ ys)
    \<and> gate_run step s (xs @ y # ys) = gate_run step s (xs @ ys)"
  using redelivered_refused [OF assms] by (simp add: gate_simps reject_keeps)

lemma redelivery_invisible:
  assumes "redelivers key xs ys" and "gate_passed step s xs = xs"
  shows "gate_passed step s ys = xs"
  using assms
proof (induction rule: redelivers.induct)
  case redelivers_Nil
  then show ?case by simp
next
  case (redelivers_new xs ys x)
  have all: "gate_passed step s xs = xs \<and> gate_passed step (gate_run step s xs) [x] = [x]"
    using redelivers_new.prems by (rule gate_passed_all_append)
  then have ys: "gate_passed step s ys = xs" by (intro redelivers_new.IH) simp
  then have "gate_run step s ys = gate_run step s xs" using run_passed [of s ys] by simp
  then show ?case using ys all by (simp only: gate_simps)
next
  case (redelivers_dup xs ys x y)
  then have ys: "gate_passed step s ys = xs" by simp
  then have "gate_run step s ys = gate_run step s xs" using run_passed [of s ys] by simp
  moreover have "\<not> fst (step (gate_run step s xs) y)"
    using redelivers_dup by (intro passed_never_again) auto
  ultimately show ?case using ys by (simp add: gate_simps)
qed

end

end
