(* ===== verification/Wire.thy ===== *)
theory Wire
  imports Straw_Prelude
begin

text \<open>
  The protocol messages (package \<open>strawpb\<close>, which is generated code of another repository) as
  far as \<open>src/egress\<close> builds or reads them: a message is a record of the fields the SDK
  touches, a \<open>oneof\<close> a datatype whose constructors are the generated wrapper types, a nil
  message an option. A protobuf enum is open, so each enum has a constructor for the numbers
  the SDK does not name. The getters return what the generated getters return: the zero value
  on a nil receiver or on another \<open>oneof\<close> case.
\<close>

section \<open>Enums\<close>

datatype RequestMode =
    REQUEST_MODE_DECODED_HTTP
  | REQUEST_MODE_RAW_TUNNEL
  | REQUEST_MODE_other u32

datatype AssignAckCode =
    ASSIGN_ACK_REJECTED_ERROR
  | ASSIGN_ACK_REJECTED_DRAINING
  | ASSIGN_ACK_REJECTED_UNSUPPORTED
  | ASSIGN_ACK_REJECTED_CAPACITY
  | ASSIGN_ACK_ACCEPTED

datatype ErrorCode =
    ERROR_CODE_BODY_REF_UNAVAILABLE
  | ERROR_CODE_UNSUPPORTED_INGRESS_MODE
  | ERROR_CODE_TIMEOUT_EXCEEDED
  | ERROR_CODE_UPSTREAM_RESET
  | ERROR_CODE_other u32

datatype WorkerHealth = WORKER_HEALTH_READY | WORKER_HEALTH_DEGRADED | WORKER_HEALTH_other u32

section \<open>Stream frames\<close>

record DataFrame =
  df_offset :: u64
  df_data :: bytes

record CreditFrame =
  upload_credit_bytes :: u64
  download_credit_bytes :: u64

record ErrorFrame =
  ef_code :: ErrorCode
  ef_details :: "(string \<times> string) list"

record S3BodyRef =
  object_key :: string
  signed_url :: string
  expires_unix_ms :: i64

record BodyRefFrame =
  brf_s3 :: "S3BodyRef option"
  expected_size_bytes :: u64
  sha256_hex :: string

record RequestStart =
  rs_mode :: RequestMode
  rs_method :: string
  rs_url :: string

record OutboundStartFrame =
  target_host :: string
  target_port :: u32
  os_attempt :: u32
  worker_timestamp_ms :: i64

datatype Payload =
    StreamFrame_RequestStart RequestStart
  | StreamFrame_Data DataFrame
  | StreamFrame_BodyRef BodyRefFrame
  | StreamFrame_Credit CreditFrame
  | StreamFrame_Cancel string
  | StreamFrame_OutboundStart OutboundStartFrame
  | StreamFrame_ResponseStart u32
  | StreamFrame_End bool
  | StreamFrame_Error ErrorFrame
  | StreamFrame_Cancelled string

text \<open>
  \<open>Cancel\<close> and \<open>Cancelled\<close> carry the reason, \<open>ResponseStart\<close> the status, \<open>End\<close> the
  success flag: the only fields of those messages the SDK uses.
\<close>

record StreamFrame =
  stream_seq :: u64
  sf_attempt :: u32
  sf_payload :: "Payload option"

definition GetData :: "StreamFrame \<Rightarrow> DataFrame option" where
  "GetData f = (case sf_payload f of Some (StreamFrame_Data d) \<Rightarrow> Some d | _ \<Rightarrow> None)"

definition GetCredit :: "StreamFrame \<Rightarrow> CreditFrame option" where
  "GetCredit f = (case sf_payload f of Some (StreamFrame_Credit c) \<Rightarrow> Some c | _ \<Rightarrow> None)"

definition GetCancel :: "StreamFrame \<Rightarrow> string option" where
  "GetCancel f = (case sf_payload f of Some (StreamFrame_Cancel r) \<Rightarrow> Some r | _ \<Rightarrow> None)"

text \<open>\<open>frame.GetS3().GetObjectKey()\<close>: the empty string when there is no S3 reference.\<close>

definition GetObjectKey :: "BodyRefFrame \<Rightarrow> string" where
  "GetObjectKey b = (case brf_s3 b of None \<Rightarrow> [] | Some r \<Rightarrow> object_key r)"

text \<open>The bytes of a data frame, none for any other frame.\<close>

definition frame_bytes :: "StreamFrame \<Rightarrow> bytes" where
  "frame_bytes f = (case GetData f of None \<Rightarrow> [] | Some d \<Rightarrow> df_data d)"

definition is_data_frame :: "StreamFrame \<Rightarrow> bool" where
  "is_data_frame f \<longleftrightarrow> GetData f \<noteq> None"

lemma GetData_Some [wire_simps]:
  "GetData f = Some d \<longleftrightarrow> sf_payload f = Some (StreamFrame_Data d)"
  by (auto simp: GetData_def split: option.splits Payload.splits)

lemma GetCredit_Some [wire_simps]:
  "GetCredit f = Some c \<longleftrightarrow> sf_payload f = Some (StreamFrame_Credit c)"
  by (auto simp: GetCredit_def split: option.splits Payload.splits)

lemma GetCancel_Some [wire_simps]:
  "GetCancel f = Some r \<longleftrightarrow> sf_payload f = Some (StreamFrame_Cancel r)"
  by (auto simp: GetCancel_def split: option.splits Payload.splits)

lemma frame_bytes_data [simp]:
  "frame_bytes \<lparr>stream_seq = n, sf_attempt = a, sf_payload = Some (StreamFrame_Data d)\<rparr> = df_data d"
  by (simp add: frame_bytes_def GetData_def)

lemma GetData_data [simp]:
  "GetData \<lparr>stream_seq = n, sf_attempt = a, sf_payload = Some (StreamFrame_Data d)\<rparr> = Some d"
  by (simp add: GetData_def)

text \<open>The frame literal the code writes for a chunk of data.\<close>

definition data_frame :: "u64 \<Rightarrow> u32 \<Rightarrow> u64 \<Rightarrow> bytes \<Rightarrow> StreamFrame" where
  "data_frame seq attempt offset data =
     \<lparr>stream_seq = seq, sf_attempt = attempt,
      sf_payload = Some (StreamFrame_Data \<lparr>df_offset = offset, df_data = data\<rparr>)\<rparr>"

lemma data_frame_simps [simp]:
  "stream_seq (data_frame n a off d) = n"
  "sf_attempt (data_frame n a off d) = a"
  "sf_payload (data_frame n a off d) = Some (StreamFrame_Data \<lparr>df_offset = off, df_data = d\<rparr>)"
  "GetData (data_frame n a off d) = Some \<lparr>df_offset = off, df_data = d\<rparr>"
  "GetCredit (data_frame n a off d) = None"
  "GetCancel (data_frame n a off d) = None"
  "frame_bytes (data_frame n a off d) = d"
  "is_data_frame (data_frame n a off d)"
  by (simp_all add: data_frame_def GetCredit_def GetCancel_def is_data_frame_def)

section \<open>Assignment, registration and heartbeat messages\<close>

record AssignRequest =
  ar_mode :: RequestMode
  ar_attempt :: u32
  ar_deadline_unix_ms :: i64
  expected_upload_bytes :: i64
  initial_upload_credit_bytes :: u64
  initial_download_credit_bytes :: u64

record PoolRef =
  pr_deployment_id :: string
  pr_pool_id :: string

record RegisterRequest =
  rr_worker_id :: string
  rr_executor_type :: string
  rr_credential_id :: string
  rr_protocol_major :: u32
  rr_protocol_minor :: u32
  rr_software_version :: string
  rr_allowed_pools :: "PoolRef list"
  rr_tags :: "string list"
  rr_countries :: "string list"
  rr_regions :: "string list"
  rr_ip_types :: "string list"
  rr_supported_ingress_modes :: "string list"
  rr_supported_fingerprint_profiles :: "string list"
  rr_max_concurrency :: u32
  rr_initial_draining :: bool
  rr_nonce :: bytes
  rr_issued_at_unix_ms :: i64
  rr_signed_token :: bytes

record RegisterAck =
  ra_ok :: bool
  ra_session_id :: string

record HeartbeatRequest =
  hb_worker_id :: string
  hb_session_id :: string
  hb_health :: WorkerHealth
  hb_active_requests :: u32
  hb_available_capacity :: u32
  hb_max_concurrency :: u32
  hb_draining :: bool
  hb_worker_timestamp_ms :: i64

datatype EnvelopePayload =
    Envelope_AssignRequest AssignRequest
  | Envelope_AssignAck AssignAckCode
  | Envelope_StreamFrame StreamFrame
  | Envelope_RegisterRequest RegisterRequest
  | Envelope_RegisterAck RegisterAck
  | Envelope_HeartbeatRequest HeartbeatRequest
  | Envelope_HeartbeatAck bool

record Envelope =
  request_id :: string
  deployment_id :: string
  trace_id :: string
  deadline_unix_ms :: i64
  protocol_major :: u32
  protocol_minor :: u32
  env_attempt :: u32
  env_payload :: "EnvelopePayload option"

text \<open>The envelope literal \<open>&strawpb.Envelope{}\<close>: every field zero.\<close>

definition empty_envelope :: Envelope where
  "empty_envelope = \<lparr>request_id = [], deployment_id = [], trace_id = [], deadline_unix_ms = 0,
     protocol_major = 0, protocol_minor = 0, env_attempt = 0, env_payload = None\<rparr>"

definition GetAssignRequest :: "Envelope \<Rightarrow> AssignRequest option" where
  "GetAssignRequest e = (case env_payload e of Some (Envelope_AssignRequest r) \<Rightarrow> Some r | _ \<Rightarrow> None)"

definition GetStreamFrame :: "Envelope \<Rightarrow> StreamFrame option" where
  "GetStreamFrame e = (case env_payload e of Some (Envelope_StreamFrame f) \<Rightarrow> Some f | _ \<Rightarrow> None)"

definition GetRegisterAck :: "Envelope \<Rightarrow> RegisterAck option" where
  "GetRegisterAck e = (case env_payload e of Some (Envelope_RegisterAck a) \<Rightarrow> Some a | _ \<Rightarrow> None)"

definition GetHeartbeatAck :: "Envelope \<Rightarrow> bool option" where
  "GetHeartbeatAck e = (case env_payload e of Some (Envelope_HeartbeatAck ok) \<Rightarrow> Some ok | _ \<Rightarrow> None)"

section \<open>The codec of \<open>egress/types.go\<close>\<close>

text \<open>
  \<open>MarshalEnvelope\<close> and \<open>UnmarshalEnvelope\<close> wrap \<open>proto.Marshal\<close> and \<open>proto.Unmarshal\<close>
  of the protobuf module, which are parameters: \<open>None\<close> is their error.
\<close>

datatype codec_error = errNilEnvelope | marshal_error | unmarshal_error

type_synonym marshaller = "Envelope \<Rightarrow> bytes option"
type_synonym unmarshaller = "bytes \<Rightarrow> Envelope option"

definition MarshalEnvelope :: "marshaller \<Rightarrow> Envelope option \<Rightarrow> codec_error + bytes" where
  "MarshalEnvelope marshal env =
     (case env of
        None \<Rightarrow> Inl errNilEnvelope
      | Some e \<Rightarrow> (case marshal e of None \<Rightarrow> Inl marshal_error | Some raw \<Rightarrow> Inr raw))"

definition UnmarshalEnvelope :: "unmarshaller \<Rightarrow> bytes \<Rightarrow> codec_error + Envelope" where
  "UnmarshalEnvelope unmarshal raw =
     (case unmarshal raw of None \<Rightarrow> Inl unmarshal_error | Some e \<Rightarrow> Inr e)"

definition decodeStreamFrame :: "unmarshaller \<Rightarrow> bytes \<Rightarrow> StreamFrame option" where
  "decodeStreamFrame unmarshal raw =
     (case UnmarshalEnvelope unmarshal raw of Inl _ \<Rightarrow> None | Inr env \<Rightarrow> GetStreamFrame env)"

end
