(* ===== verification/Credit_Gate.thy ===== *)
theory Credit_Gate
  imports Wire "HOL-Library.Extended_Nat"
begin

text \<open>
  \<open>responseCreditGate\<close> of \<open>egress/assignment.go\<close>: the flow control of the response direction.
  \<open>grant\<close> puts bytes into a channel of 32 places, \<open>takeAvailable\<close> waits until there is credit
  and takes a part of it. What the waiting \<open>select\<close> receives is an argument, a list of events in
  the order they are received, so every scheduling is some list. The contract the sending loops
  rely on (progress, the limit, conservation of the budget) is the locale \<open>credit_source\<close>,
  interpreted on \<open>takeAvailable\<close>.
\<close>

section \<open>The gate\<close>

record responseCreditGate =
  gate_credit :: u64

text \<open>The channel \<open>grants\<close> is shared between two goroutines; its buffer is a list of its own.\<close>

definition streamFrameChannelBuffer :: nat where
  "streamFrameChannelBuffer = 32"

text \<open>A zero initial credit is no gate at all: nil, and nothing is limited.\<close>

definition newResponseCreditGate :: "u64 \<Rightarrow> responseCreditGate option" where
  "newResponseCreditGate initial = (if initial = 0 then None else Some \<lparr>gate_credit = initial\<rparr>)"

text \<open>
  \<open>grant\<close> on the channel buffer \<open>q\<close>: the buffer after it, or \<open>None\<close> when the send blocks
  because the channel is full.
\<close>

definition grant :: "responseCreditGate option \<Rightarrow> u64 \<Rightarrow> u64 list \<Rightarrow> u64 list option" where
  "grant g bs q =
     (if g \<noteq> None \<and> bs \<noteq> 0
      then (if length q < streamFrameChannelBuffer then Some (q @ [bs]) else None)
      else Some q)"

text \<open>One iteration of the waiting loop: the context is done, or the channel delivers a grant.\<close>

datatype wait_event = CtxDone | GrantReceived u64

datatype wait_status = CreditReady | WaitCancelled | WaitBlocked

fun waitForCredit :: "u64 \<Rightarrow> wait_event list \<Rightarrow> wait_status \<times> u64 \<times> wait_event list" where
  "waitForCredit c [] = (if c = 0 then (WaitBlocked, c, []) else (CreditReady, c, []))"
| "waitForCredit c (e # es) =
     (if c = 0
      then (case e of CtxDone \<Rightarrow> (WaitCancelled, c, es)
                    | GrantReceived g \<Rightarrow> waitForCredit (c + g) es)
      else (CreditReady, c, e # es))"

text \<open>
  \<open>takeAvailable\<close>: \<open>CreditReady\<close> with the number of bytes taken when the code returns
  \<open>(n, true)\<close>, \<open>WaitCancelled\<close> when it returns \<open>(0, false)\<close>, \<open>WaitBlocked\<close> when the events end
  while it still waits. \<open>uint64FromInt\<close> turns the limit into a word.
\<close>

definition uint64FromInt :: "int \<Rightarrow> u64" where
  "uint64FromInt n = (if n \<le> 0 then 0 else word_of_int n)"

definition takeAvailable ::
  "responseCreditGate option \<Rightarrow> nat \<Rightarrow> wait_event list
     \<Rightarrow> wait_status \<times> nat \<times> responseCreditGate option \<times> wait_event list" where
  "takeAvailable g limit evs =
     (case g of
        None \<Rightarrow> (CreditReady, limit, None, evs)
      | Some gt \<Rightarrow>
          (case waitForCredit (gate_credit gt) evs of
             (WaitBlocked, c, es) \<Rightarrow> (WaitBlocked, 0, Some (gt\<lparr>gate_credit := c\<rparr>), es)
           | (WaitCancelled, c, es) \<Rightarrow> (WaitCancelled, 0, Some (gt\<lparr>gate_credit := c\<rparr>), es)
           | (CreditReady, c, es) \<Rightarrow>
               (let limitUint = uint64FromInt (int limit)
                in if c < limitUint then (CreditReady, 1, Some (gt\<lparr>gate_credit := c - 1\<rparr>), es)
                   else (CreditReady, limit, Some (gt\<lparr>gate_credit := c - limitUint\<rparr>), es))))"

section \<open>The budget\<close>

text \<open>The bytes that may still go out: the credit and the grants received before a cancellation.\<close>

fun granted :: "wait_event list \<Rightarrow> nat" where
  "granted [] = 0"
| "granted (CtxDone # es) = 0"
| "granted (GrantReceived g # es) = unat g + granted es"

definition gate_budget :: "responseCreditGate option \<Rightarrow> wait_event list \<Rightarrow> enat" where
  "gate_budget g evs =
     (case g of None \<Rightarrow> \<infinity> | Some gt \<Rightarrow> enat (unat (gate_credit gt) + granted evs))"

lemma waitForCredit_ready:
  "waitForCredit c evs = (CreditReady, c', es) \<Longrightarrow>
     c' \<noteq> 0 \<and> unat c' + granted es = unat c + granted evs"
  by (induction c evs rule: waitForCredit.induct)
    (auto split: if_splits wait_event.splits)

lemma waitForCredit_ready_eq: "c \<noteq> 0 \<Longrightarrow> waitForCredit c evs = (CreditReady, c, evs)"
  by (cases evs) auto

lemma waitForCredit_blocked:
  "waitForCredit c evs = (WaitBlocked, c', es) \<Longrightarrow> c' = 0 \<and> es = []"
  by (induction c evs rule: waitForCredit.induct)
    (auto split: if_splits wait_event.splits)

lemma uint64FromInt_nat [slice_simps]: "uint64FromInt (int n) = of_nat n"
  by (simp add: uint64FromInt_def)

lemma takeAvailable_ready_Some:
  assumes "takeAvailable (Some gt) limit evs = (CreditReady, n, g', es)"
  obtains c where "waitForCredit (gate_credit gt) evs = (CreditReady, c, es)" and "c \<noteq> 0"
    and "n = (if c < of_nat limit then 1 else limit)"
    and "g' = Some (gt\<lparr>gate_credit := c - (if c < of_nat limit then 1 else of_nat limit)\<rparr>)"
proof -
  obtain st c es' where w: "waitForCredit (gate_credit gt) evs = (st, c, es')"
    by (cases "waitForCredit (gate_credit gt) evs") auto
  with assms have st: "st = CreditReady" and "es' = es"
    by (cases st; simp add: takeAvailable_def Let_def split: if_splits)+
  with w have "waitForCredit (gate_credit gt) evs = (CreditReady, c, es)" by simp
  moreover from this have "c \<noteq> 0" using waitForCredit_ready by blast
  ultimately show ?thesis using assms
    by (intro that [of c]) (auto simp: takeAvailable_def Let_def slice_simps split: if_splits)
qed

lemma takeAvailable_bounds:
  assumes "takeAvailable g limit evs = (CreditReady, n, g', es)" and "0 < limit"
  shows "0 < n \<and> n \<le> limit"
proof (cases g)
  case None
  with assms show ?thesis by (simp add: takeAvailable_def)
next
  case (Some gt)
  with assms obtain c where "n = (if c < (of_nat limit :: u64) then 1 else limit)"
    by (auto elim: takeAvailable_ready_Some)
  with assms(2) show ?thesis by simp
qed

lemma takeAvailable_budget:
  assumes "takeAvailable g limit evs = (CreditReady, n, g', es)" and "limit < 2 ^ 64"
  shows "gate_budget g evs = enat n + gate_budget g' es"
proof (cases g)
  case None
  with assms show ?thesis by (auto simp: takeAvailable_def gate_budget_def)
next
  case (Some gt)
  with assms obtain c where w: "waitForCredit (gate_credit gt) evs = (CreditReady, c, es)"
    and c: "c \<noteq> 0" and n: "n = (if c < of_nat limit then 1 else limit)"
    and g': "g' = Some (gt\<lparr>gate_credit := c - (if c < of_nat limit then 1 else of_nat limit)\<rparr>)"
    by (auto elim: takeAvailable_ready_Some)
  have lmt: "unat (of_nat limit :: u64) = limit" using assms(2) by (simp add: unat_of_nat)
  have "unat (c - (if c < of_nat limit then 1 else of_nat limit)) + n = unat c"
  proof (cases "c < of_nat limit")
    case True
    have "1 \<le> c" using c by (simp add: word_le_nat_alt Suc_leI unat_gt_0)
    then show ?thesis using True n by (simp add: slice_simps word_le_nat_alt)
  next
    case False
    then have "of_nat limit \<le> c" by simp
    then show ?thesis using False n lmt by (simp add: slice_simps word_le_nat_alt)
  qed
  then show ?thesis using waitForCredit_ready [OF w] Some g' by (simp add: gate_budget_def)
qed

lemma waitForCredit_progress:
  "0 < unat c + granted evs \<Longrightarrow> fst (waitForCredit c evs) = CreditReady"
  by (induction c evs rule: waitForCredit.induct)
    (auto simp: unat_eq_zero split: wait_event.splits)

lemma takeAvailable_progress:
  assumes "0 < gate_budget g evs"
  shows "fst (takeAvailable g limit evs) = CreditReady"
proof (cases g)
  case None
  then show ?thesis by (simp add: takeAvailable_def)
next
  case (Some gt)
  with assms have "fst (waitForCredit (gate_credit gt) evs) = CreditReady"
    by (intro waitForCredit_progress) (simp add: gate_budget_def zero_enat_def)
  then obtain c es where "waitForCredit (gate_credit gt) evs = (CreditReady, c, es)"
    by (cases "waitForCredit (gate_credit gt) evs") auto
  then show ?thesis using Some by (simp add: takeAvailable_def Let_def)
qed

text \<open>
  The total of the credit and of every grant, whatever the waits do: a call that does not take
  leaves it alone.
\<close>

fun granted_total :: "wait_event list \<Rightarrow> nat" where
  "granted_total [] = 0"
| "granted_total (CtxDone # es) = granted_total es"
| "granted_total (GrantReceived g # es) = unat g + granted_total es"

definition gate_total :: "responseCreditGate option \<Rightarrow> wait_event list \<Rightarrow> enat" where
  "gate_total g evs =
     (case g of None \<Rightarrow> \<infinity> | Some gt \<Rightarrow> enat (unat (gate_credit gt) + granted_total evs))"

lemma waitForCredit_total:
  "waitForCredit c evs = (st, c', es) \<Longrightarrow> unat c' + granted_total es = unat c + granted_total evs"
  by (induction c evs rule: waitForCredit.induct) (auto split: if_splits wait_event.splits)

lemma waitForCredit_events:
  "waitForCredit c evs = (st, c', es) \<Longrightarrow>
     set es \<subseteq> set evs \<and> (st = WaitCancelled \<longrightarrow> CtxDone \<in> set evs)"
  by (induction c evs rule: waitForCredit.induct) (auto split: if_splits wait_event.splits)

lemma takeAvailable_stop:
  assumes "takeAvailable g limit evs = (st, n, g', es)" and "st \<noteq> CreditReady"
  shows "n = 0 \<and> gate_total g evs = gate_total g' es"
proof (cases g)
  case None
  with assms show ?thesis by (simp add: takeAvailable_def)
next
  case (Some gt)
  obtain st' c es' where w: "waitForCredit (gate_credit gt) evs = (st', c, es')"
    by (cases "waitForCredit (gate_credit gt) evs") auto
  with assms Some show ?thesis using waitForCredit_total [OF w]
    by (cases st') (auto simp: takeAvailable_def Let_def gate_total_def split: if_splits)
qed

lemma takeAvailable_total:
  assumes t: "takeAvailable g limit evs = (CreditReady, n, g', es)" and "limit < 2 ^ 64"
  shows "gate_total g evs = enat n + gate_total g' es"
proof (cases g)
  case None
  with assms show ?thesis by (auto simp: takeAvailable_def gate_total_def)
next
  case (Some gt)
  with t obtain c where w: "waitForCredit (gate_credit gt) evs = (CreditReady, c, es)"
    by (auto elim: takeAvailable_ready_Some)
  from t Some obtain gt' where g': "g' = Some gt'" by (auto elim: takeAvailable_ready_Some)
  have "unat (gate_credit gt) + granted evs = n + (unat (gate_credit gt') + granted es)"
    using takeAvailable_budget [OF assms] Some g' by (simp add: gate_budget_def)
  then have "unat c = n + unat (gate_credit gt')" using waitForCredit_ready [OF w] by simp
  then show ?thesis using waitForCredit_total [OF w] Some g' by (simp add: gate_total_def)
qed

lemma takeAvailable_events:
  assumes "takeAvailable g limit evs = (st, n, g', es)"
  shows "set es \<subseteq> set evs \<and> (st = WaitCancelled \<longrightarrow> CtxDone \<in> set evs)"
proof (cases g)
  case None
  with assms show ?thesis by (simp add: takeAvailable_def)
next
  case (Some gt)
  obtain st' c es' where w: "waitForCredit (gate_credit gt) evs = (st', c, es')"
    by (cases "waitForCredit (gate_credit gt) evs") auto
  with assms Some show ?thesis using waitForCredit_events [OF w]
    by (cases st') (auto simp: takeAvailable_def Let_def split: if_splits)
qed

section \<open>What the sending loops rely on\<close>

text \<open>
  The common shape of the two sending loops (\<open>publishResponseData\<close> and the inner loop of
  \<open>streamTunnelDownload\<close>): take credit for at most \<open>lmt\<close> bytes, send that much, go on with the
  rest. The chunks sent, the status of the last wait, and the bytes not sent.
\<close>

function send_chunks ::
  "('g \<Rightarrow> nat \<Rightarrow> 'e \<Rightarrow> wait_status \<times> nat \<times> 'g \<times> 'e) \<Rightarrow> nat \<Rightarrow> 'g \<Rightarrow> 'e \<Rightarrow> bytes
     \<Rightarrow> bytes list \<times> wait_status \<times> bytes" where
  "send_chunks tk lmt g e ds =
     (if ds = [] then ([], CreditReady, [])
      else (case tk g (min (length ds) lmt) e of
              (st, n, g', e') \<Rightarrow>
                (if st \<noteq> CreditReady \<or> n = 0 then ([], st, ds)
                 else (case send_chunks tk lmt g' e' (drop n ds) of
                         (cs, st', rest) \<Rightarrow> (take n ds # cs, st', rest)))))"
  by pat_completeness auto
termination
  by (relation "measure (\<lambda>(tk, lmt, g, e, ds). length ds)") auto

declare send_chunks.simps [simp del]

locale credit_source =
  fixes tk :: "'g \<Rightarrow> nat \<Rightarrow> 'e \<Rightarrow> wait_status \<times> nat \<times> 'g \<times> 'e"
    and budget :: "'g \<Rightarrow> 'e \<Rightarrow> enat"
  assumes tk_bounds: "tk g l e = (CreditReady, n, g', e') \<Longrightarrow> 0 < l \<Longrightarrow> 0 < n \<and> n \<le> l"
    and tk_budget: "tk g l e = (CreditReady, n, g', e') \<Longrightarrow> l < 2 ^ 64 \<Longrightarrow>
      budget g e = enat n + budget g' e'"
    and tk_progress: "0 < budget g e \<Longrightarrow> fst (tk g l e) = CreditReady"
begin

lemma send_chunks_prefix: "send_chunks tk lmt g e ds = (cs, st, rest) \<Longrightarrow> concat cs @ rest = ds"
proof (induction tk lmt g e ds arbitrary: cs st rest rule: send_chunks.induct)
  case (1 tk lmt g e ds)
  then show ?case
    by (subst (asm) (2) send_chunks.simps) (auto split: if_splits prod.splits)
qed

lemma send_chunks_sizes:
  assumes "send_chunks tk lmt g e ds = (cs, st, rest)" and "0 < lmt" and "c \<in> set cs"
  shows "0 < length c \<and> length c \<le> lmt"
  using assms
proof (induction "length ds" arbitrary: g e ds cs st rest rule: less_induct)
  case less
  obtain st1 n g1 e1 where t: "tk g (min (length ds) lmt) e = (st1, n, g1, e1)"
    by (cases "tk g (min (length ds) lmt) e") auto
  have go: "ds \<noteq> [] \<and> st1 = CreditReady \<and> n \<noteq> 0"
    using less.prems(1,3) t by (subst (asm) send_chunks.simps) (auto split: if_splits)
  obtain cs1 rest1 where rec: "send_chunks tk lmt g1 e1 (drop n ds) = (cs1, st, rest1)"
    and cs: "cs = take n ds # cs1"
    using less.prems(1) t go by (subst (asm) send_chunks.simps) (auto split: if_splits prod.splits)
  have bnd: "0 < n \<and> n \<le> min (length ds) lmt"
    using tk_bounds [of g "min (length ds) lmt" e n g1 e1] t go less.prems(2) by simp
  show ?case
  proof (cases "c \<in> set cs1")
    case True
    then show ?thesis using less.hyps [OF _ rec less.prems(2)] go bnd by simp
  next
    case False
    then have "c = take n ds" using less.prems(3) cs by simp
    then show ?thesis using bnd by simp
  qed
qed

text \<open>Exactly as many bytes go out as the data has and the budget allows.\<close>

lemma send_chunks_sent:
  assumes "send_chunks tk lmt g e ds = (cs, st, rest)" and "0 < lmt" and "lmt < 2 ^ 64"
  shows "enat (length (concat cs)) = min (enat (length ds)) (budget g e)"
  using assms
proof (induction "length ds" arbitrary: g e ds cs st rest rule: less_induct)
  case less
  show ?case
  proof (cases "ds = []")
    case True
    then show ?thesis using less.prems(1) by (simp add: send_chunks.simps zero_enat_def [symmetric])
  next
    case False
    obtain st1 n g1 e1 where t: "tk g (min (length ds) lmt) e = (st1, n, g1, e1)"
      by (cases "tk g (min (length ds) lmt) e") auto
    show ?thesis
    proof (cases "st1 = CreditReady")
      case False
      then have "budget g e = 0" using tk_progress [of g e "min (length ds) lmt"] t by auto
      then show ?thesis using less.prems(1) t False
        by (subst (asm) send_chunks.simps) (auto simp: zero_enat_def split: if_splits)
    next
      case True
      have bnd: "0 < n \<and> n \<le> min (length ds) lmt"
        using tk_bounds [of g "min (length ds) lmt" e n g1 e1] t True less.prems(2) False by simp
      have bud: "budget g e = enat n + budget g1 e1"
        using tk_budget [of g "min (length ds) lmt" e n g1 e1] t True less.prems(3) by simp
      obtain cs1 rest1 where rec: "send_chunks tk lmt g1 e1 (drop n ds) = (cs1, st, rest1)"
        and cs: "cs = take n ds # cs1"
        using less.prems(1) t True False bnd
        by (subst (asm) send_chunks.simps) (auto split: if_splits prod.splits)
      have "enat (length (concat cs1)) = min (enat (length (drop n ds))) (budget g1 e1)"
        using less.hyps [OF _ rec less.prems(2,3)] bnd False by simp
      then show ?thesis using cs bud bnd
        by (cases "budget g1 e1") (auto simp: min_def split: if_splits)
    qed
  qed
qed

end

interpretation response_gate: credit_source takeAvailable gate_budget
  by unfold_locales (use takeAvailable_bounds takeAvailable_budget takeAvailable_progress in blast)+

end
