(* ===== verification/Stream_Validator.thy ===== *)
theory Stream_Validator
  imports Wire
begin

text \<open>
  \<open>egress/stream.go\<close>: the validator every incoming stream frame goes through. Its state, its
  outcomes and \<open>accept\<close> are written as the code has them, the clock reading of \<open>v.now()\<close> an
  argument. The lemmas characterise \<open>accept\<close> on every branch, show that a frame that is not
  accepted leaves the state alone (the validator is a \<open>once_gate\<close>), and that the frames it
  lets through are a well-formed stream: numbered without gaps, contiguous in their offsets,
  within the initial credit, with at most one terminal frame, the last.
\<close>

section \<open>State and operations\<close>

datatype frameOutcome =
    frameAccepted
  | frameDuplicate
  | frameAfterTerminal
  | frameSequenceGap
  | frameOffsetMismatch
  | frameCreditExhausted
  | frameAttemptMismatch
  | frameInvalid

text \<open>Times are nanoseconds; \<open>time.Duration\<close> likewise.\<close>

record streamValidator =
  sv_attempt :: u32
  expectedSeq :: u64
  sv_offset :: u64
  sv_credit :: u64
  sv_terminal :: bool
  idleTimeout :: int
  lastActivity :: int
  allowBodyRef :: bool

definition newStreamValidator :: "u32 \<Rightarrow> u64 \<Rightarrow> int \<Rightarrow> bool \<Rightarrow> int \<Rightarrow> streamValidator" where
  "newStreamValidator attempt initialCredit idle allowRef now =
     \<lparr>sv_attempt = attempt, expectedSeq = 1, sv_offset = 0, sv_credit = initialCredit,
      sv_terminal = False, idleTimeout = idle, lastActivity = now, allowBodyRef = allowRef\<rparr>"

definition isTerminalFrame :: "StreamFrame \<Rightarrow> bool" where
  "isTerminalFrame f =
     (case sf_payload f of
        Some (StreamFrame_End _) \<Rightarrow> True
      | Some (StreamFrame_Error _) \<Rightarrow> True
      | Some (StreamFrame_Cancelled _) \<Rightarrow> True
      | _ \<Rightarrow> False)"

definition isBodyRefFrame :: "StreamFrame \<Rightarrow> bool" where
  "isBodyRefFrame f = (case sf_payload f of Some (StreamFrame_BodyRef _) \<Rightarrow> True | _ \<Rightarrow> False)"

definition validateFrameShell :: "streamValidator \<Rightarrow> StreamFrame option \<Rightarrow> frameOutcome" where
  "validateFrameShell v f =
     (case f of
        None \<Rightarrow> frameInvalid
      | Some fr \<Rightarrow>
          (if sf_payload fr = None then frameInvalid
           else if sv_terminal v then frameAfterTerminal
           else if stream_seq fr = 0 then frameInvalid
           else if sf_attempt fr \<noteq> sv_attempt v then frameAttemptMismatch
           else frameAccepted))"

definition acceptData :: "streamValidator \<Rightarrow> DataFrame option \<Rightarrow> frameOutcome \<times> streamValidator" where
  "acceptData v data =
     (case data of
        None \<Rightarrow> (frameAccepted, v)
      | Some d \<Rightarrow>
          (if df_offset d \<noteq> sv_offset v then (frameOffsetMismatch, v)
           else let n = ulen (df_data d)
                in if sv_credit v < n then (frameCreditExhausted, v)
                   else (frameAccepted, v\<lparr>sv_credit := sv_credit v - n, sv_offset := sv_offset v + n\<rparr>)))"

definition accept :: "int \<Rightarrow> streamValidator \<Rightarrow> StreamFrame option \<Rightarrow> frameOutcome \<times> streamValidator" where
  "accept now v f =
     (let shell = validateFrameShell v f
      in if shell \<noteq> frameAccepted then (shell, v)
         else case f of
                None \<Rightarrow> (shell, v)
              | Some fr \<Rightarrow>
                  (let seq = stream_seq fr
                   in if seq < expectedSeq v then (frameDuplicate, v)
                      else if expectedSeq v < seq then (frameSequenceGap, v)
                      else if isBodyRefFrame fr \<and> \<not> allowBodyRef v then (frameInvalid, v)
                      else case acceptData v (GetData fr) of
                             (outcome, v1) \<Rightarrow>
                               (if outcome \<noteq> frameAccepted then (outcome, v1)
                                else let v2 = v1\<lparr>expectedSeq := expectedSeq v1 + 1, lastActivity := now\<rparr>
                                     in (frameAccepted,
                                         if isTerminalFrame fr then v2\<lparr>sv_terminal := True\<rparr> else v2))))"

definition idleExpired :: "int \<Rightarrow> streamValidator \<Rightarrow> bool" where
  "idleExpired now v \<longleftrightarrow>
     0 < idleTimeout v \<and> \<not> sv_terminal v \<and> idleTimeout v \<le> now - lastActivity v"

section \<open>The branches of \<open>accept\<close>\<close>

text \<open>The condition under which a frame is accepted, all guards together.\<close>

definition acceptable :: "streamValidator \<Rightarrow> StreamFrame option \<Rightarrow> bool" where
  "acceptable v f \<longleftrightarrow>
     (\<exists>fr. f = Some fr \<and> sf_payload fr \<noteq> None \<and> \<not> sv_terminal v \<and> stream_seq fr \<noteq> 0
        \<and> sf_attempt fr = sv_attempt v \<and> stream_seq fr = expectedSeq v
        \<and> (isBodyRefFrame fr \<longrightarrow> allowBodyRef v)
        \<and> (\<forall>d. GetData fr = Some d \<longrightarrow> df_offset d = sv_offset v \<and> ulen (df_data d) \<le> sv_credit v))"

text \<open>The state after an accepted frame.\<close>

definition advance :: "int \<Rightarrow> streamValidator \<Rightarrow> StreamFrame \<Rightarrow> streamValidator" where
  "advance now v fr =
     v\<lparr>expectedSeq := expectedSeq v + 1, lastActivity := now,
       sv_credit := sv_credit v - ulen (frame_bytes fr),
       sv_offset := sv_offset v + ulen (frame_bytes fr),
       sv_terminal := sv_terminal v \<or> isTerminalFrame fr\<rparr>"

lemma accept_None: "accept now v None = (frameInvalid, v)"
  by (simp add: accept_def validateFrameShell_def)

text \<open>
  \<open>accept\<close> on a frame, as one chain of guards in the code's order: the guards of the shell, the
  sequence number, the body reference, the offset, the credit.
\<close>

lemma accept_Some:
  "accept now v (Some fr) =
     (if sf_payload fr = None then (frameInvalid, v)
      else if sv_terminal v then (frameAfterTerminal, v)
      else if stream_seq fr = 0 then (frameInvalid, v)
      else if sf_attempt fr \<noteq> sv_attempt v then (frameAttemptMismatch, v)
      else if stream_seq fr < expectedSeq v then (frameDuplicate, v)
      else if expectedSeq v < stream_seq fr then (frameSequenceGap, v)
      else if isBodyRefFrame fr \<and> \<not> allowBodyRef v then (frameInvalid, v)
      else if is_data_frame fr \<and> df_offset (the (GetData fr)) \<noteq> sv_offset v then (frameOffsetMismatch, v)
      else if sv_credit v < ulen (frame_bytes fr) then (frameCreditExhausted, v)
      else (frameAccepted, advance now v fr))"
proof (cases "GetData fr")
  case None
  then show ?thesis
    by (simp add: accept_def validateFrameShell_def acceptData_def is_data_frame_def frame_bytes_def
        advance_def Let_def) auto
next
  case (Some d)
  then have "\<not> isTerminalFrame fr" by (simp add: wire_simps isTerminalFrame_def)
  with Some show ?thesis
    by (simp add: accept_def validateFrameShell_def acceptData_def is_data_frame_def frame_bytes_def
        advance_def Let_def) auto
qed

lemma acceptable_Some:
  "acceptable v (Some fr) \<longleftrightarrow>
     sf_payload fr \<noteq> None \<and> \<not> sv_terminal v \<and> stream_seq fr \<noteq> 0 \<and> sf_attempt fr = sv_attempt v
     \<and> stream_seq fr = expectedSeq v \<and> (isBodyRefFrame fr \<longrightarrow> allowBodyRef v)
     \<and> (is_data_frame fr \<longrightarrow> df_offset (the (GetData fr)) = sv_offset v)
     \<and> ulen (frame_bytes fr) \<le> sv_credit v"
  by (cases "GetData fr") (auto simp: acceptable_def is_data_frame_def frame_bytes_def)

lemma acceptable_None [simp]: "\<not> acceptable v None"
  by (simp add: acceptable_def)

lemma accept_Some_acceptable:
  "acceptable v (Some fr) \<Longrightarrow> accept now v (Some fr) = (frameAccepted, advance now v fr)"
  unfolding accept_Some acceptable_Some by auto

lemma accept_not_acceptable:
  assumes "\<not> acceptable v f"
  shows "fst (accept now v f) \<noteq> frameAccepted \<and> snd (accept now v f) = v"
proof (cases f)
  case None
  then show ?thesis by (simp add: accept_None)
next
  case (Some fr)
  with assms have "\<not> acceptable v (Some fr)" by simp
  then show ?thesis unfolding Some accept_Some acceptable_Some
    by (simp split: if_split) (metis linorder_less_linear not_less)
qed

lemma accept_iff [gate_simps]: "fst (accept now v f) = frameAccepted \<longleftrightarrow> acceptable v f"
  by (cases "acceptable v f"; cases f) (simp_all add: accept_not_acceptable accept_Some_acceptable)

lemma accept_rejected: "fst (accept now v f) \<noteq> frameAccepted \<Longrightarrow> snd (accept now v f) = v"
  using accept_not_acceptable accept_iff by blast

lemma advance_simps [simp]:
  "sv_attempt (advance now v fr) = sv_attempt v"
  "expectedSeq (advance now v fr) = expectedSeq v + 1"
  "sv_offset (advance now v fr) = sv_offset v + ulen (frame_bytes fr)"
  "sv_credit (advance now v fr) = sv_credit v - ulen (frame_bytes fr)"
  "sv_terminal (advance now v fr) \<longleftrightarrow> sv_terminal v \<or> isTerminalFrame fr"
  "idleTimeout (advance now v fr) = idleTimeout v"
  "lastActivity (advance now v fr) = now"
  "allowBodyRef (advance now v fr) = allowBodyRef v"
  by (simp_all add: advance_def)

section \<open>The validator as a gate\<close>

text \<open>An arrival is a frame (nil when the envelope did not decode) with its arrival time.\<close>

type_synonym arrival = "int \<times> StreamFrame option"

definition validate_step :: "streamValidator \<Rightarrow> arrival \<Rightarrow> bool \<times> streamValidator" where
  "validate_step v x = (let r = accept (fst x) v (snd x) in (fst r = frameAccepted, snd r))"

lemma fst_validate_step [gate_simps]: "fst (validate_step v x) \<longleftrightarrow> acceptable v (snd x)"
  by (simp add: validate_step_def Let_def accept_iff)

lemma validate_step_accept:
  "acceptable v (Some fr) \<Longrightarrow> snd (validate_step v (now, Some fr)) = advance now v fr"
  by (simp add: validate_step_def Let_def accept_Some_acceptable)

lemma validate_step_reject: "\<not> acceptable v (snd x) \<Longrightarrow> snd (validate_step v x) = v"
  by (simp add: validate_step_def Let_def accept_not_acceptable)

text \<open>
  How far the expected sequence number has come, as a natural number that never wraps: after
  the frame numbered \<open>2 ^ 64 - 1\<close> the expected number is \<open>0\<close> and nothing is accepted any more.
\<close>

definition seq_reached :: "streamValidator \<Rightarrow> nat" where
  "seq_reached v = (if expectedSeq v = 0 then 2 ^ 64 else unat (expectedSeq v))"

lemma seq_reached_advance:
  assumes "acceptable v (Some fr)"
  shows "unat (stream_seq fr) = seq_reached v \<and> seq_reached (advance now v fr) = Suc (seq_reached v)"
proof -
  from assms have nz: "expectedSeq v \<noteq> 0" and eq: "stream_seq fr = expectedSeq v"
    by (auto simp: acceptable_Some)
  show ?thesis
  proof (cases "expectedSeq v + 1 = 0")
    case True
    then have "expectedSeq v = - 1" by (simp add: eq_neg_iff_add_eq_0)
    then show ?thesis using eq nz by (simp add: seq_reached_def unsigned_minus_1_eq_mask mask_eq_exp_minus_1)
  next
    case False
    then show ?thesis using eq nz by (simp add: seq_reached_def unat_Suc_word)
  qed
qed

lemma seq_reached_step: "seq_reached v \<le> seq_reached (snd (validate_step v x))"
proof (cases "acceptable v (snd x)")
  case True
  then obtain now fr where "x = (now, Some fr)" by (cases x; cases "snd x") auto
  with True show ?thesis by (simp add: validate_step_accept seq_reached_advance)
qed (simp add: validate_step_reject)

lemma seq_reached_run: "seq_reached v \<le> seq_reached (gate_run validate_step v xs)"
proof (induction xs arbitrary: v)
  case (Cons x xs)
  from seq_reached_step [of v x] Cons.IH [of "snd (validate_step v x)"] show ?case
    unfolding gate_run.simps by (rule order_trans)
qed simp

lemma acceptable_seq: "acceptable v (Some fr) \<Longrightarrow> unat (stream_seq fr) = seq_reached v"
  using seq_reached_advance by blast

interpretation validator: once_gate validate_step snd
proof unfold_locales
  fix v :: streamValidator and x :: arrival
  assume "\<not> fst (validate_step v x)"
  then show "snd (validate_step v x) = v" by (simp add: gate_simps validate_step_reject)
next
  fix v :: streamValidator and x y :: arrival and zs :: "arrival list"
  assume acc: "fst (validate_step v x)" and key: "snd y = snd x"
  from acc obtain now fr where x: "x = (now, Some fr)" and ok: "acceptable v (Some fr)"
    by (cases x; cases "snd x") (auto simp: gate_simps)
  let ?v = "gate_run validate_step (snd (validate_step v x)) zs"
  have "seq_reached (advance now v fr) \<le> seq_reached ?v"
    using seq_reached_run [of "snd (validate_step v x)" zs] x ok by (simp add: validate_step_accept)
  then have "unat (stream_seq fr) < seq_reached ?v" using seq_reached_advance [OF ok] by simp
  then have "\<not> acceptable ?v (Some fr)" using acceptable_seq by fastforce
  then show "\<not> fst (validate_step ?v y)" using key x by (simp add: gate_simps)
qed

section \<open>The abstract stream\<close>

text \<open>
  What the protocol promises of a stream, over natural numbers: frame \<open>i\<close> carries number
  \<open>n + i\<close> and the attempt of the assignment, data is contiguous from \<open>off\<close> and fits the credit
  \<open>cr\<close>, body references only where they are allowed, nothing after a terminal frame.
\<close>

fun wf_stream :: "u32 \<Rightarrow> bool \<Rightarrow> nat \<Rightarrow> nat \<Rightarrow> nat \<Rightarrow> StreamFrame list \<Rightarrow> bool" where
  "wf_stream a allow n off cr [] \<longleftrightarrow> True"
| "wf_stream a allow n off cr (f # fs) \<longleftrightarrow>
     sf_payload f \<noteq> None \<and> sf_attempt f = a \<and> unat (stream_seq f) = n
     \<and> (isBodyRefFrame f \<longrightarrow> allow)
     \<and> (is_data_frame f \<longrightarrow> unat (df_offset (the (GetData f))) = off)
     \<and> length (frame_bytes f) \<le> cr
     \<and> (isTerminalFrame f \<longrightarrow> fs = [])
     \<and> wf_stream a allow (Suc n) (off + length (frame_bytes f)) (cr - length (frame_bytes f)) fs"

text \<open>The simulation relation between a validator and the abstract stream position.\<close>

definition at_position :: "streamValidator \<Rightarrow> u32 \<Rightarrow> bool \<Rightarrow> nat \<Rightarrow> nat \<Rightarrow> nat \<Rightarrow> bool" where
  "at_position v a allow n off cr \<longleftrightarrow>
     sv_attempt v = a \<and> allowBodyRef v = allow \<and> seq_reached v = n
     \<and> unat (sv_offset v) = off \<and> unat (sv_credit v) = cr \<and> off + cr < 2 ^ 64"

lemma at_position_new:
  "at_position (newStreamValidator a cr idle allow now) a allow 1 0 (unat cr)"
  using unat_less_64 [of cr] by (simp add: at_position_def newStreamValidator_def seq_reached_def)

lemma acceptable_position:
  assumes pos: "at_position v a allow n off cr" and "\<not> sv_terminal v" and sl: "go_slice (frame_bytes f)"
  shows "acceptable v (Some f) \<longleftrightarrow>
     sf_payload f \<noteq> None \<and> sf_attempt f = a \<and> unat (stream_seq f) = n
     \<and> (isBodyRefFrame f \<longrightarrow> allow)
     \<and> (is_data_frame f \<longrightarrow> unat (df_offset (the (GetData f))) = off)
     \<and> length (frame_bytes f) \<le> cr"
proof -
  have seq: "stream_seq f \<noteq> 0 \<and> stream_seq f = expectedSeq v \<longleftrightarrow> unat (stream_seq f) = n"
  proof (cases "expectedSeq v = 0")
    case True
    then have "n = 2 ^ 64" using pos by (simp add: at_position_def seq_reached_def)
    then show ?thesis using True unat_less_64 [of "stream_seq f"] by auto
  next
    case False
    then have "n = unat (expectedSeq v)" using pos by (simp add: at_position_def seq_reached_def)
    then show ?thesis using False by (auto simp: word_unat_eq_iff)
  qed
  have off: "df_offset d = sv_offset v \<longleftrightarrow> unat (df_offset d) = off" for d
    using pos by (simp add: at_position_def word_unat_eq_iff)
  have cr: "ulen (frame_bytes f) \<le> sv_credit v \<longleftrightarrow> length (frame_bytes f) \<le> cr"
    using pos sl by (simp add: at_position_def word_le_nat_alt slice_simps)
  show ?thesis using assms(2) pos seq off cr by (auto simp: acceptable_Some at_position_def)
qed

lemma advance_position:
  assumes pos: "at_position v a allow n off cr" and acc: "acceptable v (Some f)"
    and sl: "go_slice (frame_bytes f)"
  shows "at_position (advance now v f) a allow (Suc n)
    (off + length (frame_bytes f)) (cr - length (frame_bytes f))"
proof -
  have le: "ulen (frame_bytes f) \<le> sv_credit v" using acc by (simp add: acceptable_Some)
  then have "length (frame_bytes f) \<le> cr"
    using pos sl by (simp add: at_position_def word_le_nat_alt slice_simps)
  moreover have "unat (sv_offset v + ulen (frame_bytes f)) = off + length (frame_bytes f)"
    using pos sl calculation by (subst unat_add_no_wrap) (auto simp: at_position_def slice_simps)
  ultimately show ?thesis using pos sl le seq_reached_advance [OF acc]
    by (simp add: at_position_def slice_simps)
qed

lemma terminal_blocks: "sv_terminal v \<Longrightarrow> gate_passed validate_step v xs = []"
proof (induction xs)
  case (Cons x xs)
  then have "\<not> acceptable v (snd x)" by (cases "snd x") (simp_all add: acceptable_Some)
  with Cons show ?case by (simp add: gate_simps validate_step_reject)
qed simp

text \<open>The arrivals of a run whose data slices have a length a Go slice can have.\<close>

definition sliced :: "arrival list \<Rightarrow> bool" where
  "sliced xs \<longleftrightarrow> (\<forall>x\<in>set xs. \<forall>f. snd x = Some f \<longrightarrow> go_slice (frame_bytes f))"

lemma sliced_Cons [simp]:
  "sliced (x # xs) \<longleftrightarrow> (\<forall>f. snd x = Some f \<longrightarrow> go_slice (frame_bytes f)) \<and> sliced xs"
  by (auto simp: sliced_def)

lemma sliced_Nil [simp]: "sliced []"
  by (simp add: sliced_def)

definition frames_of :: "arrival list \<Rightarrow> StreamFrame list" where
  "frames_of xs = map (\<lambda>x. the (snd x)) xs"

lemma frames_of_simps [simp]:
  "frames_of [] = []"
  "frames_of (x # xs) = the (snd x) # frames_of xs"
  "frames_of (xs @ ys) = frames_of xs @ frames_of ys"
  by (simp_all add: frames_of_def)

lemma frames_of_empty [simp]: "frames_of xs = [] \<longleftrightarrow> xs = []"
  by (simp add: frames_of_def)

lemma passed_all_iff:
  assumes "at_position v a allow n off cr" and "\<not> sv_terminal v" and "sliced xs"
  shows "gate_passed validate_step v xs = xs \<longleftrightarrow>
    (\<forall>x\<in>set xs. snd x \<noteq> None) \<and> wf_stream a allow n off cr (frames_of xs)"
  using assms
proof (induction xs arbitrary: v n off cr)
  case (Cons x xs)
  show ?case
  proof (cases "acceptable v (snd x)")
    case False
    then have "gate_passed validate_step v (x # xs) \<noteq> x # xs"
      using gate_passed_length [of validate_step v xs] by (auto simp: gate_simps validate_step_reject)
    moreover have "snd x \<noteq> None \<Longrightarrow> \<not> wf_stream a allow n off cr (frames_of (x # xs))"
      using False Cons.prems acceptable_position [OF Cons.prems(1,2)] by auto
    ultimately show ?thesis by auto
  next
    case True
    then obtain now f where x: "x = (now, Some f)" by (cases x; cases "snd x") auto
    with True Cons.prems have acc: "acceptable v (Some f)" and sl: "go_slice (frame_bytes f)" by auto
    note wf = acc [unfolded acceptable_position [OF Cons.prems(1,2) sl]]
    note pos = advance_position [OF Cons.prems(1) acc sl]
    show ?thesis
    proof (cases "isTerminalFrame f")
      case True
      then have "sv_terminal (advance now v f)" by simp
      then show ?thesis using wf acc True
        by (auto simp: x gate_simps validate_step_accept terminal_blocks)
    next
      case False
      then have "\<not> sv_terminal (advance now v f)" using Cons.prems(2) by simp
      then show ?thesis using wf acc False Cons.IH [OF pos] Cons.prems(3)
        by (simp add: x gate_simps validate_step_accept)
    qed
  qed
qed simp

lemma sliced_passed: "sliced xs \<Longrightarrow> sliced (gate_passed step v xs)"
  using gate_passed_subset [of step v xs] by (auto simp: sliced_def)

lemma passed_wf:
  assumes "at_position v a allow n off cr" and "\<not> sv_terminal v" and "sliced xs"
  shows "wf_stream a allow n off cr (frames_of (gate_passed validate_step v xs))"
  by (rule passed_all_iff [OF assms(1,2) sliced_passed [OF assms(3)],
        THEN iffD1, OF validator.passed_passed, THEN conjunct2])

text \<open>What a well-formed stream says about the bytes and the numbers of its frames.\<close>

definition stream_bytes :: "StreamFrame list \<Rightarrow> bytes" where
  "stream_bytes fs = concat (map frame_bytes fs)"

lemma stream_bytes_simps [simp]:
  "stream_bytes [] = []"
  "stream_bytes (f # fs) = frame_bytes f @ stream_bytes fs"
  "stream_bytes (fs @ gs) = stream_bytes fs @ stream_bytes gs"
  by (simp_all add: stream_bytes_def)

lemma wf_stream_credit:
  "wf_stream a allow n off cr fs \<Longrightarrow> length (stream_bytes fs) \<le> cr"
proof (induction fs arbitrary: n off cr)
  case (Cons f fs)
  then have "length (frame_bytes f) \<le> cr"
    and "length (stream_bytes fs) \<le> cr - length (frame_bytes f)" by auto
  then show ?case by simp
qed simp

lemma wf_stream_seqs:
  "wf_stream a allow n off cr fs \<Longrightarrow> map (\<lambda>f. unat (stream_seq f)) fs = [n ..< n + length fs]"
proof (induction fs arbitrary: n off cr)
  case (Cons f fs)
  then have "wf_stream a allow (Suc n) (off + length (frame_bytes f)) (cr - length (frame_bytes f)) fs"
    by simp
  from Cons.IH [OF this] have "map (\<lambda>f. unat (stream_seq f)) fs = [Suc n ..< Suc n + length fs]" .
  moreover have "[n ..< n + length (f # fs)] = n # [Suc n ..< Suc n + length fs]"
    by (simp add: upt_conv_Cons del: upt_Suc)
  ultimately show ?case using Cons.prems by (simp del: upt_Suc)
qed simp

lemma wf_stream_offsets:
  assumes "wf_stream a allow n off cr (us @ f # vs)" and "GetData f = Some d"
  shows "unat (df_offset d) = off + length (stream_bytes us)"
  using assms(1)
proof (induction us arbitrary: n off cr)
  case Nil
  with assms(2) show ?case by (simp add: is_data_frame_def)
next
  case (Cons u us)
  then have "wf_stream a allow (Suc n) (off + length (frame_bytes u)) (cr - length (frame_bytes u)) (us @ f # vs)"
    by simp
  from Cons.IH [OF this] show ?case by simp
qed

lemma wf_stream_append:
  "wf_stream a allow n off cr (us @ vs) \<longleftrightarrow>
     wf_stream a allow n off cr us
     \<and> ((\<exists>u\<in>set us. isTerminalFrame u) \<longrightarrow> vs = [])
     \<and> wf_stream a allow (n + length us) (off + length (stream_bytes us)) (cr - length (stream_bytes us)) vs"
  by (induction us arbitrary: n off cr) (auto simp: add.assoc)

lemma run_position:
  assumes "at_position v a allow n off cr" and "\<not> sv_terminal v" and "sliced xs"
  shows "at_position (gate_run validate_step v xs) a allow
    (n + length (gate_passed validate_step v xs))
    (off + length (stream_bytes (frames_of (gate_passed validate_step v xs))))
    (cr - length (stream_bytes (frames_of (gate_passed validate_step v xs))))"
  using assms
proof (induction xs arbitrary: v n off cr)
  case (Cons x xs)
  show ?case
  proof (cases "acceptable v (snd x)")
    case False
    then show ?thesis using Cons by (simp add: gate_simps validate_step_reject)
  next
    case True
    then obtain now f where x: "x = (now, Some f)" by (cases x; cases "snd x") auto
    with True Cons.prems have acc: "acceptable v (Some f)" and sl: "go_slice (frame_bytes f)" by auto
    note pos = advance_position [OF Cons.prems(1) acc sl]
    show ?thesis
    proof (cases "isTerminalFrame f")
      case True
      then have "sv_terminal (advance now v f)" by simp
      then show ?thesis using pos acc validator.run_all_rejected [OF terminal_blocks]
        by (simp add: x gate_simps validate_step_accept terminal_blocks)
    next
      case False
      then have "\<not> sv_terminal (advance now v f)" using Cons.prems(2) by simp
      then show ?thesis using acc Cons.IH [OF pos] Cons.prems(3)
        by (simp add: x gate_simps validate_step_accept add.assoc)
    qed
  qed
qed simp

lemma not_terminal_new [simp]: "\<not> sv_terminal (newStreamValidator a cr idle allow now)"
  by (simp add: newStreamValidator_def)

section \<open>Properties\<close>

text \<open>C12: whatever arrives on the stream, the frames \<open>accept\<close> lets through from a fresh validator
  are a well-formed stream: numbered \<open>1, 2, ...\<close>, all of the assignment's attempt, their data
  contiguous from offset \<open>0\<close> and within the initial credit, nothing after a terminal frame.\<close>

theorem accepted_frames_form_stream:
  assumes "sliced xs"
  shows "wf_stream a allow 1 0 (unat cr)
    (frames_of (gate_passed validate_step (newStreamValidator a cr idle allow now) xs))"
  by (rule passed_wf [OF at_position_new not_terminal_new assms])

theorem accepted_frames_form_stream_witness:
  "wf_stream 7 True 1 0 3 (frames_of (gate_passed validate_step (newStreamValidator 7 3 0 True 0)
     [(0, Some (data_frame 1 7 0 [1, 2])), (0, Some (data_frame 9 7 2 [3])), (0, None)]))"
  using accepted_frames_form_stream
    [of "[(0, Some (data_frame 1 7 0 [1, 2])), (0, Some (data_frame 9 7 2 [3])), (0, None)]" 7 True 3 0 0]
  by (simp add: go_slice_def)

text \<open>C2: and the validator refuses no well-formed stream: a list of arrivals passes as a whole
  exactly when every envelope decoded and the frames are a well-formed stream. With the
  previous property the validator implements the abstract stream.\<close>

theorem stream_accepted_iff_wellformed:
  assumes "sliced xs"
  shows "gate_passed validate_step (newStreamValidator a cr idle allow now) xs = xs \<longleftrightarrow>
    (\<forall>x\<in>set xs. snd x \<noteq> None) \<and> wf_stream a allow 1 0 (unat cr) (frames_of xs)"
  by (rule passed_all_iff [OF at_position_new not_terminal_new assms])

theorem stream_accepted_iff_wellformed_witness:
  "gate_passed validate_step (newStreamValidator 7 3 0 False 0)
     [(0, Some (data_frame 1 7 0 [1, 2])), (1, Some (data_frame 2 7 2 [3]))]
   = [(0, Some (data_frame 1 7 0 [1, 2])), (1, Some (data_frame 2 7 2 [3]))]"
  using stream_accepted_iff_wellformed
    [of "[(0, Some (data_frame 1 7 0 [1, 2])), (1, Some (data_frame 2 7 2 [3]))]" 7 3 0 False 0]
  by (simp add: go_slice_def data_frame_simps isBodyRefFrame_def isTerminalFrame_def)

text \<open>C13: redelivery of an accepted frame is invisible. Whatever has arrived, when a frame that was
  accepted comes again at any later point, then whatever arrives after it the same frames are
  accepted as without it, and the validator ends in the same state, its idle clock included.\<close>

theorem redelivered_frames_are_dropped:
  assumes "(t, f) \<in> set (gate_passed validate_step v xs)"
  shows "gate_passed validate_step v (xs @ (t', f) # ys) = gate_passed validate_step v (xs @ ys)
    \<and> gate_run validate_step v (xs @ (t', f) # ys) = gate_run validate_step v (xs @ ys)"
  by (rule validator.redelivery_dropped [OF assms]) simp

theorem redelivered_frames_are_dropped_witness:
  "gate_passed validate_step (newStreamValidator 7 3 0 False 0)
     ([(0, Some (data_frame 9 7 0 [2])), (0, Some (data_frame 1 7 0 [1]))] @ (5, Some (data_frame 1 7 0 [1])) # [])
   = [(0, Some (data_frame 1 7 0 [1]))]"
proof -
  let ?xs = "[(0, Some (data_frame 9 7 0 [2])), (0, Some (data_frame 1 7 0 [1]))] :: arrival list"
  let ?v = "newStreamValidator 7 3 0 False 0"
  have p: "gate_passed validate_step ?v ?xs = [(0, Some (data_frame 1 7 0 [1]))]"
    by (simp add: gate_simps validate_step_reject acceptable_Some newStreamValidator_def data_frame_simps
        isBodyRefFrame_def ulen_def)
  have "(0, Some (data_frame 1 7 0 [1])) \<in> set (gate_passed validate_step ?v ?xs)" by (simp only: p) simp
  from redelivered_frames_are_dropped [OF this, of 5 "[]"] show ?thesis by (simp only: p append_Nil2)
qed

text \<open>So a list that is accepted as a whole is accepted as it is when the channel delivers it with any
  of its frames repeated, at any later times.\<close>

lemma redelivered_list_accepted:
  assumes "redelivers snd xs ys" and "gate_passed validate_step v xs = xs"
  shows "gate_passed validate_step v ys = xs"
  by (rule validator.redelivery_invisible [OF assms])

text \<open>C31: the credit is never overdrawn and never lost: after any arrivals the offset is the number
  of bytes accepted, and offset and remaining credit add up to the initial credit, as natural
  numbers (no wrap-around).\<close>

theorem validator_credit_conserved:
  assumes "sliced xs"
  shows "let v = newStreamValidator a cr idle allow now; w = gate_run validate_step v xs;
             got = stream_bytes (frames_of (gate_passed validate_step v xs))
         in unat (sv_offset w) = length got \<and> unat (sv_credit w) + length got = unat cr"
proof -
  let ?v = "newStreamValidator a cr idle allow now"
  let ?got = "stream_bytes (frames_of (gate_passed validate_step ?v xs))"
  have "length ?got \<le> unat cr"
    by (rule wf_stream_credit [OF passed_wf [OF at_position_new not_terminal_new assms]])
  then show ?thesis
    using run_position [OF at_position_new [of a cr idle allow now] not_terminal_new assms]
    by (simp add: at_position_def Let_def)
qed

theorem validator_credit_conserved_witness:
  "let v = newStreamValidator 7 3 0 False 0; xs = [(0, Some (data_frame 1 7 0 [1, 2]))];
       w = gate_run validate_step v xs; got = stream_bytes (frames_of (gate_passed validate_step v xs))
   in unat (sv_offset w) = length got \<and> unat (sv_credit w) + length got = 3"
  using validator_credit_conserved [of "[(0, Some (data_frame 1 7 0 [1, 2]))]" 7 3 0 False 0]
  by (simp add: go_slice_def Let_def)

text \<open>Only accepted frames keep a stream alive. A frame with any other outcome changes nothing,
  the idle clock included; an accepted frame restarts the clock, and a terminal one stops it
  for good.\<close>

lemma idle_clock_restarts_on_accept_only:
  "idleExpired t (snd (accept now v f)) \<longleftrightarrow>
     (if fst (accept now v f) = frameAccepted
      then 0 < idleTimeout v \<and> \<not> (\<exists>fr. f = Some fr \<and> isTerminalFrame fr) \<and> now + idleTimeout v \<le> t
      else idleExpired t v)"
proof (cases f)
  case None
  then show ?thesis by (simp add: accept_None)
next
  case (Some fr)
  show ?thesis
  proof (cases "acceptable v (Some fr)")
    case True
    then have "\<not> sv_terminal v" by (simp add: acceptable_Some)
    with True Some show ?thesis by (auto simp: accept_Some_acceptable idleExpired_def)
  next
    case False
    then show ?thesis using Some accept_not_acceptable [OF False] by simp
  qed
qed

end
