(* ===== verification/Response_Stream.thy ===== *)
theory Response_Stream
  imports Credit_Gate Stream_Validator
begin

text \<open>
  The response direction of \<open>egress/assignment.go\<close>: \<open>publishResponseData\<close> cuts a data frame into
  numbered chunks as credit allows, \<open>publishResponseProgress\<close> numbers every other frame, the
  closure \<open>send\<close> of \<open>startDecodedExecution\<close> threads the sequence number through the calls of an
  executor, \<open>applyCancellation\<close> closes a cancelled result. The lemmas reduce the loop to
  \<open>send_chunks\<close>, so the facts of the locale \<open>credit_source\<close> carry it, and show that what goes out is
  a well-formed stream in the sense of the validator.
\<close>

section \<open>Publishing\<close>

definition responseFrameDataBytes :: nat where
  "responseFrameDataBytes = 32768"

lemma chunk_progress:
  assumes "takeAvailable g (min (length ds) responseFrameDataBytes) evs = (CreditReady, n, g', es)"
    and "ds \<noteq> []"
  shows "0 < n"
  using takeAvailable_bounds [OF assms(1)] assms(2) by (simp add: responseFrameDataBytes_def)

text \<open>
  The frames published, the last sequence number used, the gate and the events after the call,
  and the status: \<open>CreditReady\<close> when all bytes went out, \<open>WaitCancelled\<close> when the context ended
  the call, \<open>WaitBlocked\<close> when it still waits for credit.
\<close>

type_synonym publish_result =
  "StreamFrame list \<times> u64 \<times> responseCreditGate option \<times> wait_event list \<times> wait_status"

function publishResponseData ::
  "responseCreditGate option \<Rightarrow> wait_event list \<Rightarrow> u64 \<Rightarrow> u32 \<Rightarrow> u64 \<Rightarrow> bytes \<Rightarrow> publish_result" where
  "publishResponseData credit evs seq attempt offset remaining =
     (if remaining = [] then ([], seq, credit, evs, CreditReady)
      else (case takeAvailable credit (min (length remaining) responseFrameDataBytes) evs of
              (st, n, credit', evs') \<Rightarrow>
                (if st \<noteq> CreditReady then ([], seq, credit', evs', st)
                 else (let seq' = seq + 1; chunk = take n remaining
                       in case publishResponseData credit' evs' seq' attempt
                                 (offset + ulen chunk) (drop n remaining) of
                            (fs, seq'', credit'', evs'', st') \<Rightarrow>
                              (data_frame seq' attempt offset chunk # fs, seq'', credit'', evs'', st')))))"
  by pat_completeness auto
termination
  by (relation "measure (\<lambda>(credit, evs, seq, attempt, offset, remaining). length remaining)")
    (auto dest: chunk_progress [OF sym])

declare publishResponseData.simps [simp del]

definition publishResponseProgress ::
  "responseCreditGate option \<Rightarrow> wait_event list \<Rightarrow> u64 \<Rightarrow> StreamFrame \<Rightarrow> publish_result" where
  "publishResponseProgress credit evs seq frame =
     (case GetData frame of
        Some d \<Rightarrow> publishResponseData credit evs seq (sf_attempt frame) (df_offset d) (df_data d)
      | None \<Rightarrow> ([frame\<lparr>stream_seq := seq + 1\<rparr>], seq + 1, credit, evs, CreditReady))"

text \<open>
  The calls of \<open>send\<close> an executor makes, in their order; the captured variable \<open>seq\<close> runs through
  them. A cancelled wait only ends its own call; a call that waits forever never returns to the
  executor.
\<close>

fun sendAll ::
  "responseCreditGate option \<Rightarrow> wait_event list \<Rightarrow> u64 \<Rightarrow> StreamFrame list \<Rightarrow> publish_result" where
  "sendAll credit evs seq [] = ([], seq, credit, evs, CreditReady)"
| "sendAll credit evs seq (f # fs) =
     (case publishResponseProgress credit evs seq f of
        (out, seq', credit', evs', st) \<Rightarrow>
          (if st = WaitBlocked then (out, seq', credit', evs', st)
           else (case sendAll credit' evs' seq' fs of
                   (out', seq'', credit'', evs'', st') \<Rightarrow> (out @ out', seq'', credit'', evs'', st'))))"

definition applyCancellation :: "StreamFrame list \<Rightarrow> string \<Rightarrow> StreamFrame list" where
  "applyCancellation frames reason =
     (if frames = [] then frames
      else let final = last frames
           in case sf_payload final of
                Some (StreamFrame_End _) \<Rightarrow> frames
              | _ \<Rightarrow> frames[length frames - 1 :=
                      \<lparr>stream_seq = stream_seq final, sf_attempt = sf_attempt final,
                       sf_payload = Some (StreamFrame_Cancelled reason)\<rparr>])"

section \<open>The loop is the shared chunk loop\<close>

fun data_frames :: "u64 \<Rightarrow> u32 \<Rightarrow> u64 \<Rightarrow> bytes list \<Rightarrow> StreamFrame list" where
  "data_frames seq a off [] = []"
| "data_frames seq a off (c # cs) =
     data_frame (seq + 1) a off c # data_frames (seq + 1) a (off + ulen c) cs"

lemma length_data_frames [simp]: "length (data_frames seq a off cs) = length cs"
  by (induction seq a off cs rule: data_frames.induct) auto

lemma stream_bytes_data_frames [simp]: "stream_bytes (data_frames seq a off cs) = concat cs"
  by (induction seq a off cs rule: data_frames.induct) auto

lemma publishResponseData_chunks:
  assumes "publishResponseData g evs seq a off ds = (fs, s, g', es, st)"
  shows "\<exists>cs rest. send_chunks takeAvailable responseFrameDataBytes g evs ds = (cs, st, rest)
    \<and> fs = data_frames seq a off cs \<and> s = seq + of_nat (length cs)"
  using assms
proof (induction g evs seq a off ds arbitrary: fs s g' es st rule: publishResponseData.induct)
  case (1 g evs seq a off ds)
  show ?case
  proof (cases "ds = []")
    case True
    with "1.prems" show ?thesis by (simp add: publishResponseData.simps send_chunks.simps)
  next
    case False
    let ?l = "min (length ds) responseFrameDataBytes"
    obtain st1 n g1 es1 where t: "takeAvailable g ?l evs = (st1, n, g1, es1)"
      by (cases "takeAvailable g ?l evs") auto
    show ?thesis
    proof (cases "st1 = CreditReady")
      case False
      with "1.prems" \<open>ds \<noteq> []\<close> t show ?thesis
        by (auto simp: publishResponseData.simps [of g] send_chunks.simps [of takeAvailable])
    next
      case True
      then have n: "0 < n" using chunk_progress t False by blast
      obtain fs1 where rec: "publishResponseData g1 es1 (seq + 1) a (off + ulen (take n ds)) (drop n ds)
          = (fs1, s, g', es, st)" and fs: "fs = data_frame (seq + 1) a off (take n ds) # fs1"
        using "1.prems" False t True
        by (subst (asm) publishResponseData.simps) (auto simp: Let_def split: prod.splits)
      from True have "\<not> st1 \<noteq> CreditReady" by simp
      from "1.IH" [OF False t [symmetric] refl refl this refl refl rec]
      obtain cs rest where "send_chunks takeAvailable responseFrameDataBytes g1 es1 (drop n ds) = (cs, st, rest)"
        and "fs1 = data_frames (seq + 1) a (off + ulen (take n ds)) cs"
        and "s = seq + 1 + of_nat (length cs)" by blast
      then have "send_chunks takeAvailable responseFrameDataBytes g evs ds = (take n ds # cs, st, rest)"
        and "fs = data_frames seq a off (take n ds # cs)" and "s = seq + of_nat (length (take n ds # cs))"
        using False t True n fs by (simp_all add: send_chunks.simps [of _ _ _ _ ds] add.assoc)
      then show ?thesis by blast
    qed
  qed
qed

lemma publishResponseData_frames:
  assumes "publishResponseData g evs seq a off ds = (fs, s, g', es, st)"
  obtains cs rest where "send_chunks takeAvailable responseFrameDataBytes g evs ds = (cs, st, rest)"
    and "fs = data_frames seq a off cs" and "s = seq + of_nat (length cs)" and "concat cs @ rest = ds"
  using publishResponseData_chunks [OF assms] response_gate.send_chunks_prefix by blast

lemma send_chunks_ready: "send_chunks tk m g e ds = (cs, st, rest) \<Longrightarrow> st = CreditReady \<Longrightarrow>
  (\<And>g e l n g' e'. tk g l e = (CreditReady, n, g', e') \<Longrightarrow> 0 < l \<Longrightarrow> 0 < n) \<Longrightarrow> 0 < m \<Longrightarrow> rest = []"
proof (induction tk m g e ds arbitrary: cs st rest rule: send_chunks.induct)
  case (1 tk m g e ds)
  show ?case
  proof (cases "ds = []")
    case True
    with "1.prems" show ?thesis by (simp add: send_chunks.simps)
  next
    case False
    obtain st1 n g1 e1 where t: "tk g (min (length ds) m) e = (st1, n, g1, e1)"
      by (cases "tk g (min (length ds) m) e") auto
    have pos: "st1 = CreditReady \<Longrightarrow> 0 < n" using "1.prems"(3) [of g "min (length ds) m" e n g1 e1]
        t False "1.prems"(4) by simp
    have go: "st1 = CreditReady" using "1.prems"(1,2) t False pos
      by (subst (asm) send_chunks.simps) (auto split: if_splits)
    then obtain cs1 where "send_chunks tk m g1 e1 (drop n ds) = (cs1, st, rest)"
      using "1.prems"(1) t False pos by (subst (asm) send_chunks.simps) (auto split: prod.splits)
    with "1.IH" [OF False t [symmetric] refl refl] go pos "1.prems"(2,3,4) show ?thesis by simp
  qed
qed

section \<open>Numbers, bytes, budget\<close>

text \<open>Frames that carry the numbers \<open>seq + 1, seq + 2, ...\<close> of the machine counter.\<close>

fun numbered :: "u64 \<Rightarrow> StreamFrame list \<Rightarrow> bool" where
  "numbered seq [] \<longleftrightarrow> True"
| "numbered seq (f # fs) \<longleftrightarrow> stream_seq f = seq + 1 \<and> numbered (seq + 1) fs"

lemma numbered_append:
  "numbered seq (fs @ gs) \<longleftrightarrow> numbered seq fs \<and> numbered (seq + of_nat (length fs)) gs"
  by (induction fs arbitrary: seq) (auto simp: add.assoc)

lemma numbered_data_frames: "numbered seq (data_frames seq a off cs)"
  by (induction seq a off cs rule: data_frames.induct) auto

lemma progress_numbered:
  assumes "publishResponseProgress g evs seq f = (out, s, g', es, st)"
  shows "numbered seq out \<and> s = seq + of_nat (length out)"
proof (cases "GetData f")
  case None
  with assms show ?thesis by (auto simp: publishResponseProgress_def)
next
  case (Some d)
  with assms have "publishResponseData g evs seq (sf_attempt f) (df_offset d) (df_data d)
    = (out, s, g', es, st)" by (simp add: publishResponseProgress_def)
  then show ?thesis by (rule publishResponseData_frames) (simp add: numbered_data_frames)
qed

lemma sendAll_numbered:
  "sendAll g evs seq fs = (out, s, g', es, st) \<Longrightarrow> numbered seq out \<and> s = seq + of_nat (length out)"
proof (induction g evs seq fs arbitrary: out s g' es st rule: sendAll.induct)
  case (2 g evs seq f fs)
  obtain o1 s1 g1 e1 st1 where p: "publishResponseProgress g evs seq f = (o1, s1, g1, e1, st1)"
    by (cases "publishResponseProgress g evs seq f") auto
  note n1 = progress_numbered [OF p]
  show ?case
  proof (cases "st1 = WaitBlocked")
    case True
    with p n1 "2.prems" show ?thesis by auto
  next
    case False
    obtain o2 s2 g2 e2 st2 where r: "sendAll g1 e1 s1 fs = (o2, s2, g2, e2, st2)"
      by (cases "sendAll g1 e1 s1 fs") auto
    from "2.IH" [OF p [symmetric] refl refl refl False r]
    show ?thesis using p r False n1 "2.prems" by (auto simp: numbered_append add.assoc)
  qed
qed simp

lemma publishResponseData_total:
  "publishResponseData g evs seq a off ds = (fs, s, g', es, st) \<Longrightarrow>
     gate_total g evs = enat (length (stream_bytes fs)) + gate_total g' es"
proof (induction g evs seq a off ds arbitrary: fs s g' es st rule: publishResponseData.induct)
  case (1 g evs seq a off ds)
  show ?case
  proof (cases "ds = []")
    case True
    with "1.prems" show ?thesis by (auto simp: publishResponseData.simps zero_enat_def [symmetric])
  next
    case False
    let ?l = "min (length ds) responseFrameDataBytes"
    obtain st1 n g1 es1 where t: "takeAvailable g ?l evs = (st1, n, g1, es1)"
      by (cases "takeAvailable g ?l evs") auto
    show ?thesis
    proof (cases "st1 = CreditReady")
      case False
      with "1.prems" \<open>ds \<noteq> []\<close> t takeAvailable_stop [OF t] show ?thesis
        by (auto simp: publishResponseData.simps [of g] zero_enat_def [symmetric])
    next
      case True
      then have le: "n \<le> length ds" and lt: "gate_total g evs = enat n + gate_total g1 es1"
        using takeAvailable_bounds [of g ?l evs n g1 es1] takeAvailable_total [of g ?l evs n g1 es1]
          t False by (auto simp: responseFrameDataBytes_def)
      from True have "\<not> st1 \<noteq> CreditReady" by simp
      note IH = "1.IH" [OF False t [symmetric] refl refl this refl refl]
      obtain fs1 where "publishResponseData g1 es1 (seq + 1) a (off + ulen (take n ds)) (drop n ds)
          = (fs1, s, g', es, st)" and "fs = data_frame (seq + 1) a off (take n ds) # fs1"
        using "1.prems" False t True
        by (subst (asm) publishResponseData.simps) (auto simp: Let_def split: prod.splits)
      with IH lt le show ?thesis by (simp add: add.assoc flip: plus_enat_simps(1))
    qed
  qed
qed

lemma progress_total:
  assumes "publishResponseProgress g evs seq f = (out, s, g', es, st)"
  shows "gate_total g evs = enat (length (stream_bytes out)) + gate_total g' es"
proof (cases "GetData f")
  case None
  then have "GetData (f\<lparr>stream_seq := n\<rparr>) = None" for n by (simp add: GetData_def)
  with None assms show ?thesis
    by (auto simp: publishResponseProgress_def frame_bytes_def zero_enat_def [symmetric])
next
  case (Some d)
  with assms show ?thesis by (simp add: publishResponseProgress_def publishResponseData_total)
qed

lemma sendAll_total:
  "sendAll g evs seq fs = (out, s, g', es, st) \<Longrightarrow>
     gate_total g evs = enat (length (stream_bytes out)) + gate_total g' es"
proof (induction g evs seq fs arbitrary: out s g' es st rule: sendAll.induct)
  case (1 g evs seq)
  then show ?case by (auto simp: zero_enat_def [symmetric])
next
  case (2 g evs seq f fs)
  obtain o1 s1 g1 e1 st1 where p: "publishResponseProgress g evs seq f = (o1, s1, g1, e1, st1)"
    by (cases "publishResponseProgress g evs seq f") auto
  note n1 = progress_total [OF p]
  show ?case
  proof (cases "st1 = WaitBlocked")
    case True
    with p n1 "2.prems" show ?thesis by auto
  next
    case False
    obtain o2 s2 g2 e2 st2 where r: "sendAll g1 e1 s1 fs = (o2, s2, g2, e2, st2)"
      by (cases "sendAll g1 e1 s1 fs") auto
    from "2.IH" [OF p [symmetric] refl refl refl False r]
    show ?thesis using p r False n1 "2.prems" by (auto simp: add.assoc simp flip: plus_enat_simps(1))
  qed
qed

section \<open>The published stream is well formed\<close>

text \<open>
  What the SDK asks of an executor's calls of \<open>send\<close>: the attempt of the assignment, a payload,
  no body reference, nothing terminal, data contiguous from \<open>off\<close>. The sequence numbers are not
  its business.
\<close>

fun wf_sends :: "u32 \<Rightarrow> nat \<Rightarrow> StreamFrame list \<Rightarrow> bool" where
  "wf_sends a off [] \<longleftrightarrow> True"
| "wf_sends a off (f # fs) \<longleftrightarrow>
     sf_payload f \<noteq> None \<and> sf_attempt f = a \<and> \<not> isBodyRefFrame f \<and> \<not> isTerminalFrame f
     \<and> (is_data_frame f \<longrightarrow> unat (df_offset (the (GetData f))) = off)
     \<and> wf_sends a (off + length (frame_bytes f)) fs"

lemma unat_Suc_64: "unat (w :: u64) + 1 < 2 ^ 64 \<Longrightarrow> unat (w + 1) = Suc (unat w)"
  by (subst unat_add_no_wrap) auto

lemma data_frames_wf:
  assumes "unat seq + length cs < 2 ^ 64" and "unat off + length (concat cs) < 2 ^ 64"
    and "length (concat cs) \<le> cr"
  shows "wf_stream a allow (Suc (unat seq)) (unat off) cr (data_frames seq a off cs)"
  using assms
proof (induction seq a off cs arbitrary: cr rule: data_frames.induct)
  case (2 seq a off c cs)
  have seq: "unat (seq + 1) = Suc (unat seq)" using "2.prems"(1) by (intro unat_Suc_64) simp
  have c: "unat (ulen c) = length c" using "2.prems"(2) by (intro unat_ulen_64) simp
  have off: "unat (off + ulen c) = unat off + length c"
    using "2.prems"(2) c by (subst unat_add_no_wrap) auto
  have "wf_stream a allow (Suc (unat (seq + 1))) (unat (off + ulen c)) (cr - length c)
      (data_frames (seq + 1) a (off + ulen c) cs)"
    using "2.prems" by (intro "2.IH") (auto simp: seq off)
  then show ?case using "2.prems"(3)
    by (simp add: seq off isBodyRefFrame_def isTerminalFrame_def)
qed simp

lemma publishResponseData_events:
  "publishResponseData g evs seq a off ds = (fs, s, g', es, st) \<Longrightarrow>
     set es \<subseteq> set evs \<and> (st = WaitCancelled \<longrightarrow> CtxDone \<in> set evs)"
proof (induction g evs seq a off ds arbitrary: fs s g' es st rule: publishResponseData.induct)
  case (1 g evs seq a off ds)
  show ?case
  proof (cases "ds = []")
    case True
    with "1.prems" show ?thesis by (simp add: publishResponseData.simps)
  next
    case False
    let ?l = "min (length ds) responseFrameDataBytes"
    obtain st1 n g1 es1 where t: "takeAvailable g ?l evs = (st1, n, g1, es1)"
      by (cases "takeAvailable g ?l evs") auto
    show ?thesis
    proof (cases "st1 = CreditReady")
      case False
      with "1.prems" \<open>ds \<noteq> []\<close> t takeAvailable_events [OF t] show ?thesis
        by (simp add: publishResponseData.simps [of g])
    next
      case True
      then have "\<not> st1 \<noteq> CreditReady" by simp
      note IH = "1.IH" [OF False t [symmetric] refl refl this refl refl]
      obtain fs1 where "publishResponseData g1 es1 (seq + 1) a (off + ulen (take n ds)) (drop n ds)
          = (fs1, s, g', es, st)"
        using "1.prems" False t True
        by (subst (asm) publishResponseData.simps) (auto simp: Let_def split: prod.splits)
      from IH [OF this] takeAvailable_events [OF t] show ?thesis by auto
    qed
  qed
qed

lemma data_ready_complete:
  assumes "publishResponseData g evs seq a off ds = (fs, s, g', es, CreditReady)"
  shows "stream_bytes fs = ds"
proof -
  from assms obtain cs rest
    where c: "send_chunks takeAvailable responseFrameDataBytes g evs ds = (cs, CreditReady, rest)"
      and fs: "fs = data_frames seq a off cs" and "concat cs @ rest = ds"
    by (rule publishResponseData_frames)
  moreover have "rest = []"
    by (rule send_chunks_ready [OF c refl])
      (use takeAvailable_bounds in \<open>auto simp: responseFrameDataBytes_def\<close>)
  ultimately show ?thesis by simp
qed

text \<open>One call of \<open>send\<close> without a cancelled wait: well-formed frames, a prefix of its bytes.\<close>

lemma progress_wf:
  assumes p: "publishResponseProgress g evs seq f = (out, s, g', es, st)"
    and nc: "CtxDone \<notin> set evs" and wf: "wf_sends a off (f # fs)"
    and seq: "unat seq + length out < 2 ^ 64" and bytes: "off + length (frame_bytes f) < 2 ^ 64"
    and cr: "length (stream_bytes out) \<le> cr"
  shows "wf_stream a allow (Suc (unat seq)) off cr out \<and> (\<forall>o1\<in>set out. \<not> isTerminalFrame o1)
    \<and> unat s = unat seq + length out \<and> CtxDone \<notin> set es
    \<and> (\<exists>rest. frame_bytes f = stream_bytes out @ rest \<and> (st \<noteq> WaitBlocked \<longrightarrow> rest = []))"
proof (cases "GetData f")
  case None
  then have "GetData (f\<lparr>stream_seq := n\<rparr>) = None" for n by (simp add: GetData_def)
  with None p wf seq nc show ?thesis
    by (auto simp: publishResponseProgress_def frame_bytes_def is_data_frame_def unat_Suc_64
        isBodyRefFrame_def isTerminalFrame_def)
next
  case (Some d)
  with p wf have pd: "publishResponseData g evs seq a (df_offset d) (df_data d) = (out, s, g', es, st)"
    by (simp add: publishResponseProgress_def)
  then obtain cs rest
    where out: "out = data_frames seq a (df_offset d) cs" and s: "s = seq + of_nat (length cs)"
      and cat: "concat cs @ rest = df_data d"
    by (rule publishResponseData_frames)
  from Some wf have off: "unat (df_offset d) = off" and fb: "frame_bytes f = df_data d"
    by (auto simp: is_data_frame_def frame_bytes_def)
  have ev: "CtxDone \<notin> set es" "st \<noteq> WaitCancelled"
    using publishResponseData_events [OF pd] nc by auto
  have len: "length (concat cs) \<le> length (df_data d)" using cat [symmetric] by simp
  have "unat (of_nat (length cs) :: u64) = length cs"
    using seq out by (simp add: unat_of_nat)
  then have "unat s = unat seq + length out"
    using seq out s by (simp add: unat_add_no_wrap)
  moreover have "wf_stream a allow (Suc (unat seq)) (unat (df_offset d)) cr out"
    unfolding out using seq out bytes off fb len cr by (intro data_frames_wf) auto
  moreover have "\<not> isTerminalFrame o1" if "o1 \<in> set (data_frames n a m cs)" for o1 n m
    using that by (induction n a m cs rule: data_frames.induct) (auto simp: isTerminalFrame_def)
  moreover have "st \<noteq> WaitBlocked \<Longrightarrow> rest = []"
    using data_ready_complete [of g evs seq a "df_offset d" "df_data d" out s g' es] pd ev cat out
    by (cases st) auto
  ultimately show ?thesis using off fb out cat [symmetric] ev
    by (intro conjI exI [of _ rest]) auto
qed

lemma sendAll_wf:
  "sendAll g evs seq fs = (out, s, g', es, st) \<Longrightarrow> CtxDone \<notin> set evs \<Longrightarrow> wf_sends a off fs \<Longrightarrow>
     unat seq + length out < 2 ^ 64 \<Longrightarrow> off + length (stream_bytes fs) < 2 ^ 64 \<Longrightarrow>
     length (stream_bytes out) \<le> cr \<Longrightarrow>
     wf_stream a allow (Suc (unat seq)) off cr out \<and> (\<forall>o1\<in>set out. \<not> isTerminalFrame o1)
     \<and> (\<exists>rest. stream_bytes fs = stream_bytes out @ rest \<and> (st \<noteq> WaitBlocked \<longrightarrow> rest = []))"
proof (induction g evs seq fs arbitrary: out s g' es st off cr rule: sendAll.induct)
  case (2 g evs seq f fs)
  obtain o1 s1 g1 e1 st1 where p: "publishResponseProgress g evs seq f = (o1, s1, g1, e1, st1)"
    by (cases "publishResponseProgress g evs seq f") auto
  show ?case
  proof (cases "st1 = WaitBlocked")
    case True
    with p "2.prems"(1) have eq: "out = o1" "st = WaitBlocked" by auto
    have "wf_stream a allow (Suc (unat seq)) off cr o1 \<and> (\<forall>o2\<in>set o1. \<not> isTerminalFrame o2)
      \<and> (\<exists>rest. frame_bytes f = stream_bytes o1 @ rest)"
      using progress_wf [OF p "2.prems"(2,3), of cr allow] "2.prems"(4,5,6) eq by auto
    then show ?thesis using eq by auto
  next
    case False
    obtain o2 s2 g2 e2 st2 where r: "sendAll g1 e1 s1 fs = (o2, s2, g2, e2, st2)"
      by (cases "sendAll g1 e1 s1 fs") auto
    with p False "2.prems"(1) have out: "out = o1 @ o2" "st2 = st" by auto
    have one: "wf_stream a allow (Suc (unat seq)) off cr o1" "\<forall>o2\<in>set o1. \<not> isTerminalFrame o2"
      "unat s1 = unat seq + length o1" "CtxDone \<notin> set e1" "frame_bytes f = stream_bytes o1"
      using progress_wf [OF p "2.prems"(2,3), of cr allow] "2.prems"(4,5,6) out False by auto
    have "wf_stream a allow (Suc (unat s1)) (off + length (frame_bytes f)) (cr - length (frame_bytes f)) o2
      \<and> (\<forall>o1\<in>set o2. \<not> isTerminalFrame o1)
      \<and> (\<exists>rest. stream_bytes fs = stream_bytes o2 @ rest \<and> (st2 \<noteq> WaitBlocked \<longrightarrow> rest = []))"
      using "2.IH" [OF p [symmetric] refl refl refl False r one(4), of "off + length (frame_bytes f)"
          "cr - length (frame_bytes f)"] "2.prems"(3,4,5,6) one out by auto
    then show ?thesis using one out by (auto simp: wf_stream_append)
  qed
qed simp

text \<open>No frame that goes out is longer than a chunk.\<close>

lemma data_frames_sizes:
  assumes "\<And>c. c \<in> set cs \<Longrightarrow> length c \<le> m" and "f \<in> set (data_frames seq a off cs)"
  shows "length (frame_bytes f) \<le> m"
  using assms by (induction seq a off cs rule: data_frames.induct) auto

lemma progress_sizes:
  assumes "publishResponseProgress g evs seq f = (out, s, g', es, st)" and "o1 \<in> set out"
  shows "length (frame_bytes o1) \<le> responseFrameDataBytes"
proof (cases "GetData f")
  case None
  then have "GetData (f\<lparr>stream_seq := n\<rparr>) = None" for n by (simp add: GetData_def)
  with None assms show ?thesis by (auto simp: publishResponseProgress_def frame_bytes_def)
next
  case (Some d)
  with assms have "publishResponseData g evs seq (sf_attempt f) (df_offset d) (df_data d) = (out, s, g', es, st)"
    by (simp add: publishResponseProgress_def)
  then obtain cs rest where c: "send_chunks takeAvailable responseFrameDataBytes g evs (df_data d) = (cs, st, rest)"
      and out: "out = data_frames seq (sf_attempt f) (df_offset d) cs" by (rule publishResponseData_frames)
  have "0 < responseFrameDataBytes" by (simp add: responseFrameDataBytes_def)
  from response_gate.send_chunks_sizes [OF c this] show ?thesis
    using assms(2) unfolding out by (intro data_frames_sizes) auto
qed

lemma sendAll_sizes:
  "sendAll g evs seq fs = (out, s, g', es, st) \<Longrightarrow> o1 \<in> set out \<Longrightarrow> length (frame_bytes o1) \<le> responseFrameDataBytes"
proof (induction g evs seq fs arbitrary: out s g' es st rule: sendAll.induct)
  case (2 g evs seq f fs)
  obtain p1 s1 g1 e1 st1 where p: "publishResponseProgress g evs seq f = (p1, s1, g1, e1, st1)"
    by (cases "publishResponseProgress g evs seq f") auto
  show ?case
  proof (cases "st1 = WaitBlocked")
    case True
    with p "2.prems" progress_sizes [OF p] show ?thesis by auto
  next
    case False
    obtain o2 s2 g2 e2 st2 where r: "sendAll g1 e1 s1 fs = (o2, s2, g2, e2, st2)"
      by (cases "sendAll g1 e1 s1 fs") auto
    from "2.IH" [OF p [symmetric] refl refl refl False r]
    show ?thesis using p r False progress_sizes [OF p] "2.prems" by auto
  qed
qed simp

lemma sent_within_credit:
  assumes "initial \<noteq> 0" and "sendAll (newResponseCreditGate initial) evs 0 fs = (out, s, g', es, st)"
  shows "length (stream_bytes out) \<le> unat initial + granted_total evs"
proof -
  have "gate_total (newResponseCreditGate initial) evs
      = enat (length (stream_bytes out)) + gate_total g' es"
    by (rule sendAll_total [OF assms(2)])
  moreover have "gate_total (newResponseCreditGate initial) evs = enat (unat initial + granted_total evs)"
    using assms(1) by (simp add: newResponseCreditGate_def gate_total_def)
  ultimately show ?thesis by (cases "gate_total g' es") auto
qed

section \<open>Properties\<close>

text \<open>One data frame goes out as exactly as many bytes as it has and the credit allows, in order,
  cut into chunks of at least one and at most 32768 bytes with consecutive numbers; the sequence
  number returned is the last one used.\<close>

lemma response_data_sent_exactly:
  assumes "publishResponseData g evs seq a off ds = (fs, s, g', es, st)"
  shows "enat (length (stream_bytes fs)) = min (enat (length ds)) (gate_budget g evs)
    \<and> (\<exists>rest. ds = stream_bytes fs @ rest) \<and> numbered seq fs \<and> s = seq + of_nat (length fs)
    \<and> (\<forall>f\<in>set fs. 0 < length (frame_bytes f) \<and> length (frame_bytes f) \<le> responseFrameDataBytes)"
proof -
  from assms obtain cs rest
    where c: "send_chunks takeAvailable responseFrameDataBytes g evs ds = (cs, st, rest)"
      and fs: "fs = data_frames seq a off cs" and s: "s = seq + of_nat (length cs)"
      and cat: "concat cs @ rest = ds"
    by (rule publishResponseData_frames)
  have m: "0 < responseFrameDataBytes" "responseFrameDataBytes < 2 ^ 64"
    by (simp_all add: responseFrameDataBytes_def)
  have sz: "frame_bytes ` set (data_frames n b k cs) = set cs" for n b k
    by (induction n b k cs rule: data_frames.induct) auto
  have "frame_bytes f \<in> set cs" if "f \<in> set fs" for f
    using that sz [of seq a off] fs by blast
  then show ?thesis using response_gate.send_chunks_sent [OF c m]
      response_gate.send_chunks_sizes [OF c m(1)] cat [symmetric] fs s
    by (auto simp: numbered_data_frames)
qed

text \<open>C5: flow control over a whole execution. All the bytes published by all the calls of \<open>send\<close>
  never exceed the initial download credit plus the grants received, whatever the calls and the
  scheduling; the counter in \<open>seq\<close> numbers the frames without gap or repetition.\<close>

theorem executor_sends_within_credit:
  assumes "initial \<noteq> 0" and "sendAll (newResponseCreditGate initial) evs 0 fs = (out, s, g', es, st)"
  shows "length (stream_bytes out) \<le> unat initial + granted_total evs
    \<and> numbered 0 out \<and> s = of_nat (length out)"
  using sent_within_credit [OF assms] sendAll_numbered [OF assms(2)] by simp

theorem executor_sends_within_credit_witness:
  "\<exists>out s g' es st. sendAll (newResponseCreditGate 1) [CtxDone, GrantReceived 1] 0
       [data_frame 0 7 0 [8, 9], data_frame 0 7 2 [9]] = (out, s, g', es, st)
     \<and> length (stream_bytes out) \<le> unat (1 :: u64) + granted_total [CtxDone, GrantReceived 1]"
proof -
  obtain out s g' es st where r: "sendAll (newResponseCreditGate 1) [CtxDone, GrantReceived 1] 0
       [data_frame 0 7 0 [8, 9], data_frame 0 7 2 [9]] = (out, s, g', es, st)"
    by (metis prod_cases5)
  with executor_sends_within_credit [OF _ r] show ?thesis by auto
qed

text \<open>The window the receiver must have open: the credit it has given, or the whole body when no limit is set.\<close>

definition window_covers :: "u64 \<Rightarrow> wait_event list \<Rightarrow> StreamFrame list \<Rightarrow> u64 \<Rightarrow> bool" where
  "window_covers initial evs fs cr \<longleftrightarrow>
     (if initial = 0 then length (stream_bytes fs) \<le> unat cr else unat initial + granted_total evs \<le> unat cr)"

text \<open>C6: sender and receiver agree. Assume that no wait for credit is cancelled (after a cancelled wait
  the rest of its data frame is missing and the offsets have a gap), that the executor's frames are of
  the attempt, not terminal and contiguous, fewer than \<open>2 ^ 64\<close> frames and bytes, and that the receiver's
  window covers the credit it has given. Then the validator of a receiver of this attempt accepts every
  frame that goes out, in order, and these carry exactly the executor's bytes, or a prefix of
  them while a call still waits for credit.\<close>

theorem executor_stream_well_formed:
  assumes "sendAll (newResponseCreditGate initial) evs 0 fs = (out, s, g', es, st)"
    and "CtxDone \<notin> set evs" and "wf_sends a 0 fs"
    and "length out < 2 ^ 64" and "length (stream_bytes fs) < 2 ^ 64" and "window_covers initial evs fs cr"
  shows "gate_passed validate_step (newStreamValidator a cr idle allow t) (map (\<lambda>f. (t', Some f)) out)
      = map (\<lambda>f. (t', Some f)) out
    \<and> (\<exists>rest. stream_bytes fs = stream_bytes out @ rest \<and> (st \<noteq> WaitBlocked \<longrightarrow> rest = []))"
proof -
  have "\<exists>rest. stream_bytes fs = stream_bytes out @ rest"
    using sendAll_wf [OF assms(1-3), of "length (stream_bytes out)" allow] assms(4,5) by auto
  then have "length (stream_bytes out) \<le> length (stream_bytes fs)" by auto
  then have "length (stream_bytes out) \<le> unat cr"
    using sent_within_credit [OF _ assms(1)] assms(6) by (fastforce simp: window_covers_def split: if_splits)
  then have wf: "wf_stream a allow 1 0 (unat cr) out
      \<and> (\<exists>rest. stream_bytes fs = stream_bytes out @ rest \<and> (st \<noteq> WaitBlocked \<longrightarrow> rest = []))"
    using sendAll_wf [OF assms(1-3), of "unat cr" allow] assms(4,5) by auto
  have sl: "sliced (map (\<lambda>f. (t', Some f)) out)" using sendAll_sizes [OF assms(1)]
    by (fastforce simp: sliced_def go_slice_def responseFrameDataBytes_def)
  have "frames_of (map (\<lambda>f. (t', Some f)) out) = out" by (simp add: frames_of_def comp_def)
  then show ?thesis using wf passed_all_iff [OF at_position_new not_terminal_new sl, of a cr idle allow t] by auto
qed

theorem executor_stream_well_formed_witness:
  "gate_passed validate_step (newStreamValidator 7 2 0 False 0)
     (map (\<lambda>f. (0, Some f)) [data_frame 1 7 0 [8], data_frame 2 7 1 [9]])
   = map (\<lambda>f. (0, Some f)) [data_frame 1 7 0 [8], data_frame 2 7 1 [9]]"
proof -
  have r: "sendAll (newResponseCreditGate 1) [GrantReceived 1] 0 [data_frame 0 7 0 [8, 9]]
    = ([data_frame 1 7 0 [8], data_frame 2 7 1 [9]], 2, Some \<lparr>gate_credit = 0\<rparr>, [], CreditReady)"
    by (simp add: publishResponseProgress_def publishResponseData.simps takeAvailable_def
        newResponseCreditGate_def Let_def responseFrameDataBytes_def slice_simps ulen_def uint64FromInt_def)
  show ?thesis
    by (rule executor_stream_well_formed [OF r, THEN conjunct1])
      (simp_all add: isBodyRefFrame_def isTerminalFrame_def window_covers_def)
qed

text \<open>A cancelled result stays a well-formed stream and ends it: \<open>applyCancellation\<close> keeps every
  frame but the last, leaves a final \<open>End\<close> alone, and otherwise makes the final frame
  \<open>Cancelled\<close> with the reason under the same number and attempt.\<close>

lemma cancellation_closes_stream:
  assumes "frames \<noteq> []"
  shows "isTerminalFrame (last (applyCancellation frames reason))
    \<and> butlast (applyCancellation frames reason) = butlast frames
    \<and> last (applyCancellation frames reason) =
        (if \<exists>ok. sf_payload (last frames) = Some (StreamFrame_End ok) then last frames
         else (last frames)\<lparr>sf_payload := Some (StreamFrame_Cancelled reason)\<rparr>)
    \<and> (wf_stream a allow n off cr frames \<longrightarrow> wf_stream a allow n off cr (applyCancellation frames reason))"
proof -
  obtain us l where fs: "frames = us @ [l]" using assms by (metis append_butlast_last_id)
  let ?c = "l\<lparr>sf_payload := Some (StreamFrame_Cancelled reason)\<rparr>"
  show ?thesis
  proof (cases "\<exists>ok. sf_payload l = Some (StreamFrame_End ok)")
    case True
    then have "applyCancellation frames reason = frames"
      by (auto simp: applyCancellation_def fs Let_def)
    then show ?thesis using True by (auto simp: fs isTerminalFrame_def)
  next
    case False
    then have "applyCancellation frames reason = us @ [?c]"
      by (auto simp: applyCancellation_def fs Let_def split: option.splits Payload.splits)
    then show ?thesis using False
      by (simp add: fs wf_stream_append isTerminalFrame_def isBodyRefFrame_def is_data_frame_def
          GetData_def frame_bytes_def)
  qed
qed

end
