(* ===== verification/Go_Strings.thy ===== *)
theory Go_Strings
  imports Straw_Prelude
begin

text \<open>
  What the sources use of Go's standard library on strings and digests: \<open>strings.HasPrefix\<close>,
  \<open>strings.TrimRight\<close>, \<open>strings.EqualFold\<close>, \<open>hex.EncodeToString\<close>, \<open>sha256.Sum256\<close>, and the
  decoding of UTF-8 by \<open>for _, r := range s\<close>. A string is the list of its bytes.
\<close>

unbundle bit_operations_syntax

section \<open>Prefixes and suffixes\<close>

fun HasPrefix :: "string \<Rightarrow> string \<Rightarrow> bool" where
  "HasPrefix s [] = True"
| "HasPrefix [] (p # ps) = False"
| "HasPrefix (c # s) (p # ps) = (c = p \<and> HasPrefix s ps)"

lemma HasPrefix_iff: "HasPrefix s p \<longleftrightarrow> (\<exists>r. s = p @ r)"
  by (induction s p rule: HasPrefix.induct) auto

text \<open>\<open>strings.TrimRight(s, "/")\<close> for a one-character cutset.\<close>

definition TrimRight :: "string \<Rightarrow> char \<Rightarrow> string" where
  "TrimRight s c = rev (dropWhile (\<lambda>x. x = c) (rev s))"

lemma TrimRight_append: "\<exists>k. s = TrimRight s c @ replicate k c"
proof -
  have "rev s = takeWhile (\<lambda>x. x = c) (rev s) @ dropWhile (\<lambda>x. x = c) (rev s)" by simp
  moreover have "takeWhile (\<lambda>x. x = c) (rev s) = replicate (length (takeWhile (\<lambda>x. x = c) (rev s))) c"
    by (rule replicate_length_same [symmetric]) (auto dest: set_takeWhileD)
  ultimately have "s = rev (dropWhile (\<lambda>x. x = c) (rev s))
      @ rev (replicate (length (takeWhile (\<lambda>x. x = c) (rev s))) c)"
    by (metis rev_append rev_rev_ident)
  then show ?thesis by (auto simp: TrimRight_def)
qed

lemma TrimRight_last: "TrimRight s c \<noteq> [] \<Longrightarrow> last (TrimRight s c) \<noteq> c"
  using hd_dropWhile [of "\<lambda>x. x = c" "rev s"] by (auto simp: TrimRight_def last_rev)

lemma TrimRight_id: "s = [] \<or> last s \<noteq> c \<Longrightarrow> TrimRight s c = s"
  by (cases s rule: rev_cases) (auto simp: TrimRight_def)

section \<open>Hexadecimal digits, case folding\<close>

definition hex_digit :: "byte \<Rightarrow> char" where
  "hex_digit n = ''0123456789abcdef'' ! unat (n AND 15)"

definition EncodeToString :: "bytes \<Rightarrow> string" where
  "EncodeToString bs = concat (map (\<lambda>b. [hex_digit (drop_bit 4 b), hex_digit b]) bs)"

text \<open>
  \<open>strings.EqualFold\<close> where one side is ASCII without \<open>k\<close> and \<open>s\<close> (the only letters with a
  non-ASCII fold), as a hexadecimal digest is: fold the ASCII capitals.
\<close>

definition fold_ascii :: "char \<Rightarrow> char" where
  "fold_ascii c = (if 65 \<le> (of_char c :: nat) \<and> (of_char c :: nat) \<le> 90
     then char_of (of_char c + 32 :: nat) else c)"

definition EqualFold :: "string \<Rightarrow> string \<Rightarrow> bool" where
  "EqualFold s t \<longleftrightarrow> map fold_ascii s = map fold_ascii t"

lemma EqualFold_refl [simp]: "EqualFold s s"
  by (simp add: EqualFold_def)

lemma length_EncodeToString: "length (EncodeToString bs) = 2 * length bs"
  by (induction bs) (auto simp: EncodeToString_def)

section \<open>SHA-256\<close>

definition sha_rotr :: "nat \<Rightarrow> u32 \<Rightarrow> u32" where
  "sha_rotr n w = drop_bit n w OR push_bit (32 - n) w"

text \<open>
  The constants, as the standard introduces them: the first 32 bits of the fractional parts of cube
  roots (round constants) and square roots (initial state) of the first primes. \<open>root_bits k m n r\<close>
  extends the root \<open>r\<close> of \<open>m\<close> by \<open>n\<close> lower bits.
\<close>

fun root_bits :: "nat \<Rightarrow> int \<Rightarrow> nat \<Rightarrow> int \<Rightarrow> int" where
  "root_bits k m 0 r = r"
| "root_bits k m (Suc n) r = root_bits k m n (if (r + 2 ^ n) ^ k \<le> m then r + 2 ^ n else r)"

lemma root_bits_floor:
  assumes "r ^ k \<le> m" and "m < (r + 2 ^ n) ^ k"
  shows "root_bits k m n r ^ k \<le> m \<and> m < (root_bits k m n r + 1) ^ k"
  using assms
proof (induction k m n r rule: root_bits.induct)
  case (2 k m n r)
  show ?case
  proof (cases "(r + 2 ^ n) ^ k \<le> m")
    case True
    moreover have "r + 2 ^ n + 2 ^ n = r + 2 ^ Suc n" by simp
    ultimately show ?thesis using 2 by (simp only: root_bits.simps if_True)
  next
    case False
    then have "m < (r + 2 ^ n) ^ k" by (simp only: not_le)
    then show ?thesis using 2 False by (simp only: root_bits.simps if_False)
  qed
qed simp

definition sha_primes :: "int list" where
  "sha_primes = filter (\<lambda>p. list_all (\<lambda>d. p mod d \<noteq> 0) [2..p - 1]) [2..311]"

definition frac_root :: "nat \<Rightarrow> int \<Rightarrow> u32" where
  "frac_root k p = word_of_int (root_bits k (p * 2 ^ (32 * k)) 37 0)"

definition sha_K :: "u32 list" where
  "sha_K = map (frac_root 3) sha_primes"

definition sha_init :: "u32 list" where
  "sha_init = map (frac_root 2) (take 8 sha_primes)"

lemma sha_constants_sample:
  "frac_root 3 2 = 1116352408" "frac_root 3 311 = 3329325298" "frac_root 2 2 = 1779033703"
  "frac_root 2 19 = 1541459225"
  by code_simp+

text \<open>Padding: a one bit, zeros, the length in bits as eight bytes.\<close>

definition sha_pad :: "bytes \<Rightarrow> bytes" where
  "sha_pad bs =
     bs @ [0x80] @ replicate ((119 - length bs mod 64) mod 64) 0
        @ map (\<lambda>i. ucast (drop_bit (8 * i) (8 * ulen bs))) [7, 6, 5, 4, 3, 2, 1, 0]"

fun sha_words :: "bytes \<Rightarrow> u32 list" where
  "sha_words (a # b # c # d # bs) =
     (push_bit 24 (ucast a) OR push_bit 16 (ucast b) OR push_bit 8 (ucast c) OR ucast d) # sha_words bs"
| "sha_words bs = []"

text \<open>The message schedule, newest word first: \<open>n\<close> further words of the sixteen given.\<close>

fun sha_schedule :: "nat \<Rightarrow> u32 list \<Rightarrow> u32 list" where
  "sha_schedule 0 ws = rev ws"
| "sha_schedule (Suc n) ws =
     (let w2 = ws ! 1; w7 = ws ! 6; w15 = ws ! 14; w16 = ws ! 15;
          s0 = sha_rotr 7 w15 XOR sha_rotr 18 w15 XOR drop_bit 3 w15;
          s1 = sha_rotr 17 w2 XOR sha_rotr 19 w2 XOR drop_bit 10 w2
      in sha_schedule n ((w16 + s0 + w7 + s1) # ws))"

fun sha_round :: "u32 list \<Rightarrow> u32 \<times> u32 \<Rightarrow> u32 list" where
  "sha_round [a, b, c, d, e, f, g, h] (k, w) =
     (let s1 = sha_rotr 6 e XOR sha_rotr 11 e XOR sha_rotr 25 e;
          ch = (e AND f) XOR (NOT e AND g);
          t1 = h + s1 + ch + k + w;
          s0 = sha_rotr 2 a XOR sha_rotr 13 a XOR sha_rotr 22 a;
          maj = (a AND b) XOR (a AND c) XOR (b AND c);
          t2 = s0 + maj
      in [t1 + t2, a, b, c, d + t1, e, f, g])"
| "sha_round s kw = s"

definition sha_block :: "u32 list \<Rightarrow> u32 list \<Rightarrow> u32 list" where
  "sha_block h ws = map2 (+) h (foldl sha_round h (zip sha_K (sha_schedule 48 (rev ws))))"

function sha_blocks :: "u32 list \<Rightarrow> u32 list \<Rightarrow> u32 list" where
  "sha_blocks h ws = (if ws = [] then h else sha_blocks (sha_block h (take 16 ws)) (drop 16 ws))"
  by pat_completeness auto
termination
  by (relation "measure (\<lambda>(h, ws). length ws)") (auto intro: drop_length_less)

declare sha_blocks.simps [simp del]

definition Sum256 :: "bytes \<Rightarrow> bytes" where
  "Sum256 bs = concat (map (\<lambda>w. [ucast (drop_bit 24 w), ucast (drop_bit 16 w), ucast (drop_bit 8 w), ucast w])
     (sha_blocks sha_init (sha_words (sha_pad bs))))"

section \<open>Runes\<close>

text \<open>
  \<open>for _, r := range s\<close> decodes UTF-8; a byte that does not start a valid sequence gives
  \<open>U+FFFD\<close> and is skipped alone.
\<close>

definition RuneError :: nat where
  "RuneError = 65533"

definition in_range :: "nat \<Rightarrow> nat \<Rightarrow> nat \<Rightarrow> bool" where
  "in_range lo hi b \<longleftrightarrow> lo \<le> b \<and> b \<le> hi"

text \<open>
  The first rune of a non-empty byte string and the number of bytes it takes, by the length the first
  byte announces.
\<close>

fun decode2 :: "nat \<Rightarrow> nat list \<Rightarrow> nat \<times> nat" where
  "decode2 b0 (b1 # bs) =
     (if in_range 0x80 0xBF b1 then ((b0 - 0xC0) * 64 + (b1 - 0x80), 2) else (RuneError, 1))"
| "decode2 b0 bs = (RuneError, 1)"

fun decode3 :: "nat \<Rightarrow> nat list \<Rightarrow> nat \<times> nat" where
  "decode3 b0 (b1 # b2 # bs) =
     (if in_range (if b0 = 0xE0 then 0xA0 else 0x80) (if b0 = 0xED then 0x9F else 0xBF) b1
         \<and> in_range 0x80 0xBF b2
      then ((b0 - 0xE0) * 4096 + (b1 - 0x80) * 64 + (b2 - 0x80), 3) else (RuneError, 1))"
| "decode3 b0 bs = (RuneError, 1)"

fun decode4 :: "nat \<Rightarrow> nat list \<Rightarrow> nat \<times> nat" where
  "decode4 b0 (b1 # b2 # b3 # bs) =
     (if in_range (if b0 = 0xF0 then 0x90 else 0x80) (if b0 = 0xF4 then 0x8F else 0xBF) b1
         \<and> in_range 0x80 0xBF b2 \<and> in_range 0x80 0xBF b3
      then ((b0 - 0xF0) * 262144 + (b1 - 0x80) * 4096 + (b2 - 0x80) * 64 + (b3 - 0x80), 4)
      else (RuneError, 1))"
| "decode4 b0 bs = (RuneError, 1)"

fun decodeRune :: "nat list \<Rightarrow> nat \<times> nat" where
  "decodeRune [] = (RuneError, 1)"
| "decodeRune (b0 # bs) =
     (if b0 < 128 then (b0, 1)
      else if in_range 0xC2 0xDF b0 then decode2 b0 bs
      else if in_range 0xE0 0xEF b0 then decode3 b0 bs
      else if in_range 0xF0 0xF4 b0 then decode4 b0 bs
      else (RuneError, 1))"

text \<open>A sequence takes at least its first byte, and all the bytes it takes after it are at least 128.\<close>

definition high_tail :: "nat \<times> nat \<Rightarrow> nat list \<Rightarrow> bool" where
  "high_tail r bs \<longleftrightarrow> 0 < snd r \<and> (\<forall>b\<in>set (take (snd r - 1) bs). 128 \<le> b)"

lemma high_tail_one [simp]: "high_tail (r, 1) bs"
  by (simp add: high_tail_def)

lemma high_tail_2: "high_tail (decode2 b0 bs) bs"
  by (cases "(b0, bs)" rule: decode2.cases) (auto simp: high_tail_def in_range_def)

lemma high_tail_3: "high_tail (decode3 b0 bs) bs"
  by (cases "(b0, bs)" rule: decode3.cases) (auto simp: high_tail_def in_range_def)

lemma high_tail_4: "high_tail (decode4 b0 bs) bs"
  by (cases "(b0, bs)" rule: decode4.cases) (auto simp: high_tail_def in_range_def)

lemma decodeRune_high_tail: "high_tail (decodeRune (b0 # bs)) bs"
  using high_tail_one [of _ bs] by (simp add: high_tail_2 high_tail_3 high_tail_4)

lemma decodeRune_width_pos: "0 < snd (decodeRune bs)"
  using decodeRune_high_tail by (cases bs) (auto simp: high_tail_def simp del: decodeRune.simps(2))

function runes :: "nat list \<Rightarrow> nat list" where
  "runes bs = (if bs = [] then [] else fst (decodeRune bs) # runes (drop (snd (decodeRune bs)) bs))"
  by pat_completeness auto
termination
  by (relation "measure length") (auto intro!: diff_less decodeRune_width_pos)

declare runes.simps [simp del]

definition string_runes :: "string \<Rightarrow> nat list" where
  "string_runes s = runes (map of_char s)"

text \<open>No ASCII byte is swallowed by a multi-byte sequence: each one is a rune of its own.\<close>

lemma decodeRune_ascii_in_head:
  assumes "b \<in> set (take (snd (decodeRune bs)) bs)" and "b < 128" and "bs \<noteq> []"
  shows "fst (decodeRune bs) = b"
proof -
  obtain b0 bs' where bs: "bs = b0 # bs'" using assms(3) by (cases bs) auto
  have tail: "0 < snd (decodeRune bs)" "\<forall>b\<in>set (take (snd (decodeRune bs) - 1) bs'). 128 \<le> b"
    using decodeRune_high_tail [of b0 bs'] unfolding bs high_tail_def by blast+
  then have "b = b0" using assms(1,2) by (cases "snd (decodeRune bs)") (auto simp: bs)
  then show ?thesis using assms(2) by (simp add: bs)
qed

lemma ascii_byte_is_rune: "b \<in> set bs \<Longrightarrow> b < 128 \<Longrightarrow> b \<in> set (runes bs)"
proof (induction bs rule: runes.induct)
  case (1 bs)
  let ?n = "snd (decodeRune bs)"
  have ne: "bs \<noteq> []" using "1.prems"(1) by auto
  have "b \<in> set (take ?n bs @ drop ?n bs)" using "1.prems"(1) by simp
  then consider "b \<in> set (take ?n bs)" | "b \<in> set (drop ?n bs)"
    unfolding set_append by (elim UnE)
  then show ?case
  proof cases
    case 1
    with decodeRune_ascii_in_head [OF this "1.prems"(2) ne] ne show ?thesis
      by (simp add: runes.simps [of bs])
  next
    case 2
    with "1.IH" [OF ne 2 "1.prems"(2)] ne show ?thesis by (simp add: runes.simps [of bs])
  qed
qed

lemma runes_ascii: "\<forall>b\<in>set bs. b < 128 \<Longrightarrow> runes bs = bs"
proof (induction bs)
  case (Cons b bs)
  then show ?case by (simp add: runes.simps [of "b # bs"])
qed (simp add: runes.simps)

end
