(* ===== verification/Request_Body.thy ===== *)
theory Request_Body
  imports Stream_Validator Go_Strings
begin

text \<open>
  The request direction of \<open>egress/assignment.go\<close>: \<open>requestBodyState\<close> and \<open>readRequestBody\<close>, which
  collect the request start and the body from the validated frames, and the scope check of body
  references. The resolver (interface \<open>BodyRefResolver\<close>) is an argument, nil or what its calls return,
  and every call of it is recorded. The \<open>select\<close> of the reading loop is a list of events, what it
  received at each iteration.
\<close>

section \<open>State and operations\<close>

text \<open>
  What a call of \<open>DownloadBodyRef\<close> returns: it is no pure function of the reference (it reads a
  clock and the network), so the answer may depend on the calls of the same read before it.
\<close>

type_synonym resolver = "BodyRefFrame list \<Rightarrow> BodyRefFrame \<Rightarrow> ErrorFrame + bytes"

text \<open>The struct, and last, as the record of an effect, the references the resolver was called with.\<close>

record requestBodyState =
  rb_start :: "RequestStart option"
  rb_body :: bytes
  rb_received :: u64
  rb_expected :: u64
  rb_deploymentID :: string
  rb_requestID :: string
  rb_refs :: "resolver option"
  rb_failure :: "ErrorFrame option"
  rb_calls :: "BodyRefFrame list"

definition newRequestBodyState :: "i64 \<Rightarrow> string \<Rightarrow> string \<Rightarrow> resolver option \<Rightarrow> requestBodyState" where
  "newRequestBodyState expectedUploadBytes deploymentID requestID refs =
     \<lparr>rb_start = None, rb_body = [], rb_received = 0,
      rb_expected = (if 0 < sint expectedUploadBytes then expectedUploadBytes else 0),
      rb_deploymentID = deploymentID, rb_requestID = requestID, rb_refs = refs, rb_failure = None,
      rb_calls = []\<rparr>"

definition complete :: "requestBodyState \<Rightarrow> bool" where
  "complete s \<longleftrightarrow> rb_start s \<noteq> None \<and> rb_expected s \<le> rb_received s"

definition errorFactDetailKey :: string where
  "errorFactDetailKey = ''fact''"

definition bodyRefScope :: "string \<Rightarrow> string \<Rightarrow> string" where
  "bodyRefScope deploymentID requestID =
     ''deployment/'' @ deploymentID @ ''/request/'' @ requestID @ ''/request/''"

definition bodyRefObjectKeyScoped :: "BodyRefFrame \<Rightarrow> string \<Rightarrow> string \<Rightarrow> bool" where
  "bodyRefObjectKeyScoped frame deploymentID requestID =
     HasPrefix (GetObjectKey frame) (bodyRefScope deploymentID requestID)"

definition scopeMismatch :: ErrorFrame where
  "scopeMismatch = \<lparr>ef_code = ERROR_CODE_BODY_REF_UNAVAILABLE,
     ef_details = [(errorFactDetailKey, ''body_ref_scope_mismatch'')]\<rparr>"

definition acceptBodyRef :: "requestBodyState \<Rightarrow> BodyRefFrame \<Rightarrow> bool \<times> requestBodyState" where
  "acceptBodyRef s frame =
     (case rb_refs s of
        None \<Rightarrow> (False, s)
      | Some refs \<Rightarrow>
          (if rb_start s = None then (False, s)
           else if \<not> bodyRefObjectKeyScoped frame (rb_deploymentID s) (rb_requestID s)
             then (False, s\<lparr>rb_failure := Some scopeMismatch\<rparr>)
           else (let s' = s\<lparr>rb_calls := rb_calls s @ [frame]\<rparr>
                 in case refs (rb_calls s) frame of
                      Inl failure \<Rightarrow> (False, s'\<lparr>rb_failure := Some failure\<rparr>)
                    | Inr body \<Rightarrow> (True, s'\<lparr>rb_body := body, rb_received := ulen body\<rparr>))))"

text \<open>The payload switch of \<open>requestBodyState.accept\<close>, for an accepted frame.\<close>

definition acceptPayload :: "requestBodyState \<Rightarrow> Payload option \<Rightarrow> bool \<times> requestBodyState" where
  "acceptPayload s p =
     (case p of
        Some (StreamFrame_RequestStart st) \<Rightarrow> (True, s\<lparr>rb_start := Some st\<rparr>)
      | Some (StreamFrame_Data d) \<Rightarrow>
          (True, s\<lparr>rb_body := rb_body s @ df_data d, rb_received := rb_received s + ulen (df_data d)\<rparr>)
      | Some (StreamFrame_BodyRef b) \<Rightarrow> acceptBodyRef s b
      | Some (StreamFrame_Credit _) \<Rightarrow> (True, s)
      | _ \<Rightarrow> (False, s))"

definition acceptBodyFrame ::
  "int \<Rightarrow> requestBodyState \<Rightarrow> streamValidator \<Rightarrow> StreamFrame option
     \<Rightarrow> bool \<times> requestBodyState \<times> streamValidator" where
  "acceptBodyFrame now s v frame =
     (case accept now v frame of
        (outcome, v') \<Rightarrow>
          (if outcome = frameDuplicate then (True, s, v')
           else if outcome \<noteq> frameAccepted then (False, s, v')
           else (case acceptPayload s (Option.bind frame sf_payload) of (ok, s') \<Rightarrow> (ok, s', v'))))"

text \<open>
  What one iteration of the \<open>select\<close> receives: the context is done, a frame at some time, the
  frame channel closed, a tick at some time.
\<close>

datatype body_event =
    BodyCtxDone
  | BodyFrame int "StreamFrame option"
  | BodyFramesClosed
  | BodyTick int

text \<open>
  The four results of \<open>readRequestBody\<close>: \<open>(start, body, nil, true)\<close>, \<open>(nil, nil, failure, true)\<close>,
  \<open>(nil, nil, nil, false)\<close>, or the loop still waits when the events end.
\<close>

datatype body_result =
    BodyReady RequestStart bytes
  | BodyFailed ErrorFrame
  | BodyStopped
  | BodyWaiting

definition bodyStop :: "requestBodyState \<Rightarrow> body_result" where
  "bodyStop s = (case rb_failure s of Some e \<Rightarrow> BodyFailed e | None \<Rightarrow> BodyStopped)"

text \<open>The loop: its result, the state and the validator it leaves, and the events not used.\<close>

fun readBodyLoop ::
  "requestBodyState \<Rightarrow> streamValidator \<Rightarrow> body_event list
     \<Rightarrow> body_result \<times> requestBodyState \<times> streamValidator \<times> body_event list" where
  "readBodyLoop s v [] =
     (if complete s then (BodyReady (the (rb_start s)) (rb_body s), s, v, []) else (BodyWaiting, s, v, []))"
| "readBodyLoop s v (e # es) =
     (if complete s then (BodyReady (the (rb_start s)) (rb_body s), s, v, e # es)
      else (case e of
              BodyCtxDone \<Rightarrow> (BodyStopped, s, v, es)
            | BodyFramesClosed \<Rightarrow> (bodyStop s, s, v, es)
            | BodyTick now \<Rightarrow> (if idleExpired now v then (BodyStopped, s, v, es) else readBodyLoop s v es)
            | BodyFrame now frame \<Rightarrow>
                (case acceptBodyFrame now s v frame of
                   (ok, s', v') \<Rightarrow> (if ok then readBodyLoop s' v' es else (bodyStop s', s', v', es)))))"

definition readRequestBody ::
  "resolver option \<Rightarrow> streamValidator \<Rightarrow> i64 \<Rightarrow> string \<Rightarrow> string \<Rightarrow> body_event list
     \<Rightarrow> body_result \<times> requestBodyState \<times> streamValidator \<times> body_event list" where
  "readRequestBody refs v expectedUploadBytes deploymentID requestID evs =
     readBodyLoop (newRequestBodyState expectedUploadBytes deploymentID requestID refs) v evs"

section \<open>The events as arrivals at the validator\<close>

fun arrivals_of :: "body_event list \<Rightarrow> arrival list" where
  "arrivals_of [] = []"
| "arrivals_of (BodyFrame now f # es) = (now, f) # arrivals_of es"
| "arrivals_of (e # es) = arrivals_of es"

lemma arrivals_of_append [simp]: "arrivals_of (xs @ ys) = arrivals_of xs @ arrivals_of ys"
  by (induction xs rule: arrivals_of.induct) auto

text \<open>The guards of \<open>acceptBodyFrame\<close> in terms of the validator's step.\<close>

lemma acceptBodyFrame_validator:
  "acceptBodyFrame now s v f = (ok, s', v') \<Longrightarrow> v' = snd (validate_step v (now, f))"
  by (auto simp: acceptBodyFrame_def validate_step_def Let_def split: prod.splits if_splits)

lemma acceptBodyFrame_cases:
  assumes "acceptBodyFrame now s v f = (ok, s', v')"
  obtains (passed) fr where "f = Some fr" and "acceptable v f" and "v' = advance now v fr"
      and "acceptPayload s (sf_payload fr) = (ok, s')"
    | (dropped) "\<not> acceptable v f" and "v' = v" and "s' = s"
proof (cases "acceptable v f")
  case True
  then obtain fr where fr: "f = Some fr" by (cases f) auto
  then have "accept now v f = (frameAccepted, advance now v fr)"
    using True accept_Some_acceptable by simp
  with assms fr have "v' = advance now v fr" and "acceptPayload s (sf_payload fr) = (ok, s')"
    by (auto simp: acceptBodyFrame_def split: prod.splits)
  with True fr show ?thesis using passed by blast
next
  case False
  then have "fst (accept now v f) \<noteq> frameAccepted" and "snd (accept now v f) = v"
    using accept_not_acceptable by auto
  with assms have "v' = v" and "s' = s"
    by (auto simp: acceptBodyFrame_def split: prod.splits if_splits)
  with False show ?thesis using dropped by blast
qed

section \<open>What the loop collects\<close>

definition request_starts :: "StreamFrame list \<Rightarrow> RequestStart list" where
  "request_starts fs =
     concat (map (\<lambda>f. case sf_payload f of Some (StreamFrame_RequestStart st) \<Rightarrow> [st] | _ \<Rightarrow> []) fs)"

lemma request_starts_simps [simp]:
  "request_starts [] = []"
  "request_starts (f # fs) =
     (case sf_payload f of Some (StreamFrame_RequestStart st) \<Rightarrow> [st] | _ \<Rightarrow> []) @ request_starts fs"
  by (simp_all add: request_starts_def)

definition body_refs :: "StreamFrame list \<Rightarrow> BodyRefFrame list" where
  "body_refs fs =
     concat (map (\<lambda>f. case sf_payload f of Some (StreamFrame_BodyRef b) \<Rightarrow> [b] | _ \<Rightarrow> []) fs)"

lemma body_refs_simps [simp]:
  "body_refs [] = []"
  "body_refs (f # fs) = (case sf_payload f of Some (StreamFrame_BodyRef b) \<Rightarrow> [b] | _ \<Rightarrow> []) @ body_refs fs"
  "body_refs (fs @ gs) = body_refs fs @ body_refs gs"
  by (simp_all add: body_refs_def)

lemma request_starts_append [simp]: "request_starts (fs @ gs) = request_starts fs @ request_starts gs"
  by (simp add: request_starts_def)

text \<open>What no payload changes, and that \<open>received\<close> counts the body.\<close>

lemma acceptPayload_frame:
  assumes "acceptPayload s p = (ok, s')"
  shows "rb_expected s' = rb_expected s \<and> rb_refs s' = rb_refs s
    \<and> rb_deploymentID s' = rb_deploymentID s \<and> rb_requestID s' = rb_requestID s
    \<and> (rb_received s = ulen (rb_body s) \<longrightarrow> rb_received s' = ulen (rb_body s'))"
  using assms
  by (auto simp: acceptPayload_def acceptBodyRef_def ulen_append Let_def
      split: option.splits Payload.splits if_splits sum.splits)

text \<open>
  The five ways a payload is taken, and the three ways it ends the read: no body reference is
  expected, the reference is out of scope, or the resolver fails.
\<close>

lemma acceptPayload_cases:
  assumes "acceptPayload s (sf_payload f) = (ok, s')"
  obtains (start) st where "ok" "sf_payload f = Some (StreamFrame_RequestStart st)" "s' = s\<lparr>rb_start := Some st\<rparr>"
  | (data) d where "ok" "sf_payload f = Some (StreamFrame_Data d)"
      "s' = s\<lparr>rb_body := rb_body s @ df_data d, rb_received := rb_received s + ulen (df_data d)\<rparr>"
  | (credit) c where "ok" "sf_payload f = Some (StreamFrame_Credit c)" "s' = s"
  | (resolved) b r body where "ok" "sf_payload f = Some (StreamFrame_BodyRef b)" "rb_refs s = Some r" "rb_start s \<noteq> None"
      "bodyRefObjectKeyScoped b (rb_deploymentID s) (rb_requestID s)" "r (rb_calls s) b = Inr body"
      "s' = s\<lparr>rb_calls := rb_calls s @ [b], rb_body := body, rb_received := ulen body\<rparr>"
  | (failed) b r e where "\<not> ok" "sf_payload f = Some (StreamFrame_BodyRef b)" "rb_refs s = Some r" "rb_start s \<noteq> None"
      "bodyRefObjectKeyScoped b (rb_deploymentID s) (rb_requestID s)" "r (rb_calls s) b = Inl e"
      "s' = s\<lparr>rb_calls := rb_calls s @ [b], rb_failure := Some e\<rparr>"
  | (mismatch) b r where "\<not> ok" "sf_payload f = Some (StreamFrame_BodyRef b)" "rb_refs s = Some r" "rb_start s \<noteq> None"
      "\<not> bodyRefObjectKeyScoped b (rb_deploymentID s) (rb_requestID s)" "s' = s\<lparr>rb_failure := Some scopeMismatch\<rparr>"
  | (refused) "\<not> ok" "s' = s"
proof (cases "sf_payload f")
  case None
  then show ?thesis using assms refused by (simp add: acceptPayload_def)
next
  case (Some p)
  show ?thesis
  proof (cases p)
    case (StreamFrame_BodyRef b)
    then have a: "acceptBodyRef s b = (ok, s')" using assms Some by (simp add: acceptPayload_def)
    show ?thesis
    proof (cases "rb_refs s = None \<or> rb_start s = None")
      case True
      then show ?thesis using a refused by (auto simp: acceptBodyRef_def split: option.splits)
    next
      case False
      then obtain r where r: "rb_refs s = Some r" "rb_start s \<noteq> None" by auto
      show ?thesis
      proof (cases "bodyRefObjectKeyScoped b (rb_deploymentID s) (rb_requestID s)")
        case True
        then show ?thesis using a r Some StreamFrame_BodyRef
          by (cases "r (rb_calls s) b") (auto simp: acceptBodyRef_def Let_def intro: resolved failed)
      next
        case False
        then show ?thesis using a r Some StreamFrame_BodyRef by (intro mismatch) (auto simp: acceptBodyRef_def)
      qed
    qed
  qed (use assms Some in \<open>auto simp: acceptPayload_def intro: start data credit refused\<close>)
qed

text \<open>
  How a read ends: the events it used, what the validator has seen of them, and what holds of the
  accepted frames and the state, \<open>P\<close> when the body is ready and \<open>Q\<close> in any case.
\<close>

definition read_ends ::
  "(StreamFrame list \<Rightarrow> requestBodyState \<Rightarrow> bool) \<Rightarrow> (StreamFrame list \<Rightarrow> requestBodyState \<Rightarrow> bool)
     \<Rightarrow> StreamFrame list \<Rightarrow> streamValidator \<Rightarrow> body_event list
     \<Rightarrow> body_result \<times> requestBodyState \<times> streamValidator \<times> body_event list \<Rightarrow> bool" where
  "read_ends P Q got v evs res \<longleftrightarrow>
     (case res of (r, s', v', rest) \<Rightarrow>
        \<exists>used. evs = used @ rest \<and> v' = gate_run validate_step v (arrivals_of used)
          \<and> (let all = got @ frames_of (gate_passed validate_step v (arrivals_of used))
             in Q all s' \<and> (\<forall>e. r = BodyFailed e \<longrightarrow> rb_failure s' = Some e)
                \<and> (\<forall>st body. r = BodyReady st body \<longrightarrow>
                      complete s' \<and> st = the (rb_start s') \<and> body = rb_body s' \<and> P all s')))"

lemma read_ends_now:
  assumes "Q got s" and "\<And>st body. r = BodyReady st body \<Longrightarrow> complete s \<and> st = the (rb_start s) \<and> body = rb_body s \<and> P got s"
    and "\<And>e. r = BodyFailed e \<Longrightarrow> rb_failure s = Some e"
  shows "read_ends P Q got v evs (r, s, v, evs)"
  unfolding read_ends_def using assms by (auto simp: Let_def)

lemma read_ends_frame:
  assumes "read_ends P Q (got @ (if fst (validate_step v (now, f)) then [the f] else []))
    (snd (validate_step v (now, f))) es res"
  shows "read_ends P Q got v (BodyFrame now f # es) res"
proof -
  obtain r s' v' rest where res: "res = (r, s', v', rest)" by (metis prod_cases4)
  from assms obtain used where "es = used @ rest" and
    "v' = gate_run validate_step (snd (validate_step v (now, f))) (arrivals_of used)" and
    "let all = got @ frames_of (gate_passed validate_step v (arrivals_of (BodyFrame now f # used)))
      in Q all s' \<and> (\<forall>e. r = BodyFailed e \<longrightarrow> rb_failure s' = Some e)
         \<and> (\<forall>st body. r = BodyReady st body \<longrightarrow>
               complete s' \<and> st = the (rb_start s') \<and> body = rb_body s' \<and> P all s')"
    by (auto simp: read_ends_def res Let_def split: if_splits)
  then show ?thesis unfolding read_ends_def res by (intro case_prodI exI [of _ "BodyFrame now f # used"]) simp
qed

lemma read_ends_other:
  assumes "read_ends P Q got v es res" and "arrivals_of [e] = []"
  shows "read_ends P Q got v (e # es) res"
proof -
  obtain r s' v' rest where res: "res = (r, s', v', rest)" by (metis prod_cases4)
  have skip: "arrivals_of (e # xs) = arrivals_of xs" for xs using assms(2) by (cases e) simp_all
  from assms(1) show ?thesis unfolding read_ends_def res
    by (elim case_prodE exE, intro case_prodI) (rule_tac x = "e # used" in exI, simp add: skip)
qed

text \<open>The rule for the loop: \<open>P\<close> is kept by every payload that is taken, \<open>Q\<close> holds after the last one too.\<close>

lemma readBodyLoop_rule:
  assumes "P got s"
    and taken: "\<And>got s f s'. P got s \<Longrightarrow> acceptPayload s (sf_payload f) = (True, s') \<Longrightarrow> P (got @ [f]) s'"
    and stopped: "\<And>got s f s'. P got s \<Longrightarrow> acceptPayload s (sf_payload f) = (False, s') \<Longrightarrow> Q (got @ [f]) s'"
    and weaken: "\<And>got s. P got s \<Longrightarrow> Q got s"
  shows "read_ends P Q got v evs (readBodyLoop s v evs)"
  using assms(1)
proof (induction evs arbitrary: s v got)
  case Nil
  then show ?case using weaken by (auto intro!: read_ends_now)
next
  case (Cons e es)
  note Q = weaken [OF Cons.prems]
  show ?case
  proof (cases "complete s")
    case True
    then show ?thesis using Cons.prems Q by (auto intro!: read_ends_now)
  next
    case inc: False
    have stop: "bodyStop s' = BodyFailed x \<Longrightarrow> rb_failure s' = Some x" "bodyStop s' \<noteq> BodyReady st body" for s' x st body
      by (auto simp: bodyStop_def split: option.splits)
    show ?thesis
    proof (cases e)
      case (BodyFrame now f)
      obtain ok s1 v1 where a: "acceptBodyFrame now s v f = (ok, s1, v1)"
        by (cases "acceptBodyFrame now s v f") auto
      let ?got = "got @ (if fst (validate_step v (now, f)) then [the f] else [])"
      have v1: "v1 = snd (validate_step v (now, f))" by (rule acceptBodyFrame_validator [OF a])
      have "(if ok then P else Q) ?got s1" using a
      proof (cases rule: acceptBodyFrame_cases)
        case (passed fr)
        then show ?thesis using taken [OF Cons.prems] stopped [OF Cons.prems] by (cases ok) (simp_all add: gate_simps)
      next
        case dropped
        then show ?thesis using Cons.prems Q by (simp add: gate_simps)
      qed
      then have "read_ends P Q ?got v1 es (if ok then readBodyLoop s1 v1 es else (bodyStop s1, s1, v1, es))"
        using Cons.IH stop by (auto intro!: read_ends_now)
      then show ?thesis unfolding BodyFrame v1 using inc a v1 by (intro read_ends_frame) simp
    next
      case (BodyTick now)
      then show ?thesis using inc Q Cons
        by (intro read_ends_other) (auto intro!: read_ends_now)
    next
      case BodyCtxDone
      then show ?thesis using inc Q by (intro read_ends_other) (auto intro!: read_ends_now)
    next
      case BodyFramesClosed
      then show ?thesis using inc Q stop by (intro read_ends_other) (auto intro!: read_ends_now)
    qed
  qed
qed

text \<open>The events a read uses up are what the validator saw.\<close>

lemma readBodyLoop_used:
  assumes "readBodyLoop s v evs = (r, s', v', rest)"
  shows "\<exists>used. evs = used @ rest \<and> v' = gate_run validate_step v (arrivals_of used)"
  using readBodyLoop_rule [of "\<lambda>_ _. True" "[]" s "\<lambda>_ _. True" v evs] by (auto simp: assms read_ends_def)

section \<open>The state in terms of the accepted frames\<close>

text \<open>
  The body the frames stand for: the data after the last body reference, behind what the resolver
  returned for that reference, or all the data when there is none.
\<close>

definition assembled :: "resolver option \<Rightarrow> StreamFrame list \<Rightarrow> bytes \<Rightarrow> bool" where
  "assembled refs got body \<longleftrightarrow>
     (if body_refs got = [] then body = stream_bytes got
      else \<exists>r us f b vs object. refs = Some r \<and> got = us @ f # vs \<and> sf_payload f = Some (StreamFrame_BodyRef b)
             \<and> body_refs vs = [] \<and> r (body_refs us) b = Inr object \<and> body = object @ stream_bytes vs)"

text \<open>References are taken only from a resolver and in scope.\<close>

definition refs_in_scope :: "resolver option \<Rightarrow> string \<Rightarrow> string \<Rightarrow> BodyRefFrame list \<Rightarrow> bool" where
  "refs_in_scope refs dep rid bs \<longleftrightarrow> (\<forall>b\<in>set bs. refs \<noteq> None \<and> bodyRefObjectKeyScoped b dep rid)"

definition collected :: "u64 \<Rightarrow> resolver option \<Rightarrow> string \<Rightarrow> string \<Rightarrow> StreamFrame list \<Rightarrow> requestBodyState \<Rightarrow> bool" where
  "collected expected refs dep rid got s \<longleftrightarrow>
     rb_refs s = refs \<and> rb_deploymentID s = dep \<and> rb_requestID s = rid \<and> rb_expected s = expected
     \<and> rb_received s = ulen (rb_body s) \<and> rb_failure s = None
     \<and> rb_start s = (if request_starts got = [] then None else Some (last (request_starts got)))
     \<and> rb_calls s = body_refs got \<and> refs_in_scope refs dep rid (body_refs got) \<and> assembled refs got (rb_body s)"

lemma assembled_other:
  assumes "assembled refs got body" and "body_refs [f] = []"
  shows "assembled refs (got @ [f]) (body @ frame_bytes f)"
proof (cases "body_refs got = []")
  case True
  then show ?thesis using assms by (simp add: assembled_def)
next
  case False
  then obtain r us g b vs object where "refs = Some r" "got = us @ g # vs" "sf_payload g = Some (StreamFrame_BodyRef b)"
      "body_refs vs = []" "r (body_refs us) b = Inr object" "body = object @ stream_bytes vs"
    using assms(1) by (auto simp: assembled_def)
  then show ?thesis using assms(2) False unfolding assembled_def
    by (simp only: if_False body_refs_simps(3) append_is_Nil_conv simp_thms)
      (intro exI [of _ r] exI [of _ us] exI [of _ g] exI [of _ b] exI [of _ "vs @ [f]"] exI [of _ object], simp)
qed

lemma assembled_ref:
  assumes "sf_payload f = Some (StreamFrame_BodyRef b)" and "r (body_refs got) b = Inr object"
  shows "assembled (Some r) (got @ [f]) object"
proof -
  have "body_refs (got @ [f]) \<noteq> []" using assms(1) by simp
  moreover have "\<exists>vs. got @ [f] = got @ f # vs \<and> body_refs vs = [] \<and> object = object @ stream_bytes vs"
    by (intro exI [of _ "[]"]) simp
  ultimately show ?thesis using assms unfolding assembled_def by (simp only: if_False) blast
qed

lemma collected_step:
  assumes "collected x refs dep rid got s" and "acceptPayload s (sf_payload f) = (True, s')"
  shows "collected x refs dep rid (got @ [f]) s'"
  using assms(2)
proof (cases rule: acceptPayload_cases)
  case (data d)
  then have "frame_bytes f = df_data d" by (simp add: frame_bytes_def GetData_def)
  then show ?thesis using assms(1) data assembled_other [of refs got "rb_body s" f]
    by (auto simp: collected_def ulen_append)
next
  case (resolved b r body)
  then have refs: "refs = Some r" using assms(1) by (simp add: collected_def)
  have "r (body_refs got) b = Inr body" using assms(1) resolved by (simp add: collected_def)
  from assembled_ref [of f b r got body, OF resolved(2) this] show ?thesis
    using assms(1) resolved by (simp add: collected_def refs_in_scope_def refs)
qed (use assms(1) assembled_other [of refs got "rb_body s" f] in
      \<open>auto simp: collected_def frame_bytes_def GetData_def\<close>)

lemma collected_new:
  "collected (if 0 < sint exp then exp else 0) refs dep rid [] (newRequestBodyState exp dep rid refs)"
  by (simp add: collected_def newRequestBodyState_def assembled_def refs_in_scope_def)

lemma sint_pos_le_unat: "0 < sint (w :: u64) \<Longrightarrow> sint w = int (unat w)"
proof -
  assume pos: "0 < sint w"
  have "sint w < 2 ^ 63" using sint_less [of w] by simp
  then have "uint w = sint w" using pos by (simp add: uint_sint take_bit_int_eq_self)
  then show "sint w = int (unat w)" by simp
qed

text \<open>Even if the count of the bytes wrapped, a complete body would have the announced length.\<close>

lemma collected_complete:
  assumes "collected (if 0 < sint exp then exp else 0) refs dep rid got s" and "complete s"
  shows "sint exp \<le> int (length (rb_body s))"
proof (cases "0 < sint exp")
  case True
  then have "exp \<le> ulen (rb_body s)" using assms by (auto simp: collected_def complete_def)
  then have "unat exp \<le> unat (ulen (rb_body s))" by (simp add: word_le_nat_alt)
  also have "\<dots> \<le> length (rb_body s)" by (simp add: ulen_def unat_of_nat)
  finally show ?thesis using sint_pos_le_unat [OF True] by (simp only: of_nat_le_iff)
qed simp

text \<open>
  After any read: the calls of the resolver are references in scope, all the accepted ones but perhaps
  the last, and a failure is the scope check's or the resolver's own.
\<close>

definition own_failure :: "resolver option \<Rightarrow> string \<Rightarrow> string \<Rightarrow> ErrorFrame \<Rightarrow> bool" where
  "own_failure refs dep rid e \<longleftrightarrow>
     e = scopeMismatch
     \<or> (\<exists>r cs b. refs = Some r \<and> bodyRefObjectKeyScoped b dep rid \<and> r cs b = Inl e)"

definition called :: "resolver option \<Rightarrow> string \<Rightarrow> string \<Rightarrow> StreamFrame list \<Rightarrow> requestBodyState \<Rightarrow> bool" where
  "called refs dep rid got s \<longleftrightarrow>
     refs_in_scope refs dep rid (rb_calls s)
     \<and> (rb_calls s = body_refs got \<or> (\<exists>b. body_refs got = rb_calls s @ [b]))
     \<and> (\<forall>e. rb_failure s = Some e \<longrightarrow> own_failure refs dep rid e)"

lemma collected_called: "collected x refs dep rid got s \<Longrightarrow> called refs dep rid got s"
  by (simp add: collected_def called_def)

lemma stopped_called:
  assumes "collected x refs dep rid got s" and "acceptPayload s (sf_payload f) = (False, s')"
  shows "called refs dep rid (got @ [f]) s'"
  using assms(2)
proof (cases rule: acceptPayload_cases)
  case refused
  then show ?thesis using assms(1) by (auto simp: collected_def called_def split: option.splits Payload.splits)
next
  case (failed b r e)
  then have "refs = Some r" using assms(1) by (simp add: collected_def)
  then show ?thesis using assms(1) failed
    by (simp add: collected_def called_def refs_in_scope_def own_failure_def) blast
next
  case (mismatch b r)
  then show ?thesis using assms(1) by (simp add: collected_def called_def own_failure_def)
qed simp_all

lemma readRequestBody_ends:
  "read_ends (collected (if 0 < sint exp then exp else 0) refs dep rid) (called refs dep rid) [] v evs
     (readRequestBody refs v exp dep rid evs)"
  unfolding readRequestBody_def
  by (rule readBodyLoop_rule [where got = "[]"])
    (blast intro: collected_new collected_step stopped_called collected_called)+

lemma arrivals_sliced_append: "sliced (xs @ ys) \<longleftrightarrow> sliced xs \<and> sliced ys"
  by (auto simp: sliced_def)

section \<open>Scope\<close>

lemma scoped_iff:
  "bodyRefObjectKeyScoped b dep rid \<longleftrightarrow> (\<exists>r. GetObjectKey b = bodyRefScope dep rid @ r)"
  by (simp add: bodyRefObjectKeyScoped_def HasPrefix_iff)

section \<open>A small read\<close>

definition sample_start :: "u64 \<Rightarrow> u32 \<Rightarrow> StreamFrame" where
  "sample_start n a = \<lparr>stream_seq = n, sf_attempt = a, sf_payload =
     Some (StreamFrame_RequestStart \<lparr>rs_mode = REQUEST_MODE_DECODED_HTTP, rs_method = ''POST'', rs_url = ''u''\<rparr>)\<rparr>"

definition sample_ref :: "string \<Rightarrow> BodyRefFrame" where
  "sample_ref key = \<lparr>brf_s3 = Some \<lparr>object_key = key, signed_url = [], expires_unix_ms = 0\<rparr>,
     expected_size_bytes = 0, sha256_hex = []\<rparr>"

definition sample_ref_frame :: "u64 \<Rightarrow> string \<Rightarrow> StreamFrame" where
  "sample_ref_frame n key = \<lparr>stream_seq = n, sf_attempt = 7, sf_payload = Some (StreamFrame_BodyRef (sample_ref key))\<rparr>"

text \<open>A start, data that the reference after it replaces, and data behind the referenced object.\<close>

definition sample_events :: "body_event list" where
  "sample_events =
     [BodyFrame 0 (Some (sample_start 1 7)), BodyTick 1, BodyFrame 2 (Some (data_frame 2 7 0 [1])),
      BodyFrame 3 (Some (data_frame 2 7 0 [1])),
      BodyFrame 4 (Some (sample_ref_frame 3 ''deployment/d/request/r/request/x'')),
      BodyFrame 5 (Some (data_frame 4 7 1 [2]))]"

definition sample_resolver :: resolver where
  "sample_resolver calls b = Inr [8, 9]"

lemmas body_eval = readRequestBody_def newRequestBodyState_def complete_def acceptBodyFrame_def accept_def
  validateFrameShell_def acceptData_def newStreamValidator_def acceptPayload_def acceptBodyRef_def
  isBodyRefFrame_def isTerminalFrame_def GetData_def idleExpired_def data_frame_def sample_start_def
  sample_ref_frame_def sample_ref_def bodyRefObjectKeyScoped_def bodyRefScope_def GetObjectKey_def ulen_def

lemma sample_read:
  "\<exists>st s v. readRequestBody (Some sample_resolver) (newStreamValidator 7 3 0 True 0) 3 ''d'' ''r'' sample_events
     = (BodyReady st [8, 9, 2], s, v, []) \<and> rb_calls s = [sample_ref ''deployment/d/request/r/request/x'']"
  by (simp add: sample_events_def body_eval sample_resolver_def Let_def word_le_nat_alt)

lemma sample_events_sliced: "sliced (arrivals_of sample_events)"
  by (simp add: sample_events_def go_slice_def sample_start_def sample_ref_frame_def frame_bytes_def GetData_def)

section \<open>Properties\<close>

lemma ready_body_stream:
  assumes "readRequestBody refs (newStreamValidator a cr idle (refs \<noteq> None) now) exp dep rid evs
      = (BodyReady st body, s', v', rest)" and "sliced (arrivals_of evs)"
  shows "\<exists>used. evs = used @ rest \<and>
    (let got = frames_of (gate_passed validate_step (newStreamValidator a cr idle (refs \<noteq> None) now) (arrivals_of used))
     in wf_stream a (refs \<noteq> None) 1 0 (unat cr) got \<and> assembled refs got body
        \<and> refs_in_scope refs dep rid (body_refs got)
        \<and> request_starts got \<noteq> [] \<and> st = last (request_starts got) \<and> sint exp \<le> int (length body))"
proof -
  let ?v = "newStreamValidator a cr idle (refs \<noteq> None) now"
  let ?got = "\<lambda>used. frames_of (gate_passed validate_step ?v (arrivals_of used))"
  obtain used where used: "evs = used @ rest" and c: "complete s'" and st: "st = the (rb_start s')"
    and body: "body = rb_body s'"
    and inv: "collected (if 0 < sint exp then exp else 0) refs dep rid (?got used) s'"
    using readRequestBody_ends [of exp refs dep rid ?v evs] unfolding assms(1) by (auto simp: read_ends_def Let_def)
  have "sliced (arrivals_of used)" using assms(2) used by (simp add: arrivals_sliced_append)
  then have "wf_stream a (refs \<noteq> None) 1 0 (unat cr) (?got used)"
    by (rule passed_wf [OF at_position_new not_terminal_new])
  then show ?thesis using used st body c inv collected_complete [OF inv c]
    by (intro exI [of _ used]) (auto simp: Let_def collected_def complete_def split: if_splits)
qed

text \<open>C3: the body handed on, with or without a resolver. The accepted frames are a well-formed stream
  within the upload credit. The body is the concatenation of their data in their order; when body
  references were accepted, every one of them was in scope, and the body is what the resolver returned for the
  last one followed by the data after it. The start is the last request start received, and at
  least the announced number of bytes is there.\<close>

theorem request_body_is_the_stream:
  assumes "readRequestBody refs (newStreamValidator a cr idle (refs \<noteq> None) now) exp dep rid evs
      = (BodyReady st body, s', v', rest)" and "sliced (arrivals_of evs)"
  shows "\<exists>used. evs = used @ rest \<and>
    (let got = frames_of (gate_passed validate_step (newStreamValidator a cr idle (refs \<noteq> None) now) (arrivals_of used))
     in wf_stream a (refs \<noteq> None) 1 0 (unat cr) got \<and> assembled refs got body
        \<and> refs_in_scope refs dep rid (body_refs got)
        \<and> request_starts got \<noteq> [] \<and> st = last (request_starts got) \<and> sint exp \<le> int (length body))"
  using assms by (rule ready_body_stream)

theorem request_body_is_the_stream_witness:
  "\<exists>used got. sample_events = used @ [] \<and> wf_stream 7 True 1 0 3 got
     \<and> assembled (Some sample_resolver) got [8, 9, 2]"
proof -
  obtain st s v where r: "readRequestBody (Some sample_resolver) (newStreamValidator 7 3 0 (Some sample_resolver \<noteq> None) 0)
      3 ''d'' ''r'' sample_events = (BodyReady st [8, 9, 2], s, v, [])" using sample_read by auto
  from request_body_is_the_stream [OF r sample_events_sliced] show ?thesis by (auto simp: Let_def)
qed

text \<open>An upload larger than the initial upload credit can never be read: nothing on this path
  returns credit to the sender, so whatever arrives, the read does not succeed.\<close>

lemma upload_beyond_credit_never_completes:
  assumes "int (unat cr) < sint exp" and "sliced (arrivals_of evs)"
  shows "fst (readRequestBody None (newStreamValidator a cr idle False now) exp dep rid evs)
    \<noteq> BodyReady st body"
proof
  assume "fst (readRequestBody None (newStreamValidator a cr idle False now) exp dep rid evs) = BodyReady st body"
  then obtain s' v' rest where "readRequestBody None (newStreamValidator a cr idle (None \<noteq> (None :: resolver option)) now)
      exp dep rid evs = (BodyReady st body, s', v', rest)"
    by (cases "readRequestBody None (newStreamValidator a cr idle False now) exp dep rid evs") auto
  from ready_body_stream [OF this assms(2)] obtain got where "wf_stream a False 1 0 (unat cr) got"
      "assembled None got body" "sint exp \<le> int (length body)" by (auto simp: Let_def)
  moreover from this have "body = stream_bytes got" by (auto simp: assembled_def split: if_splits)
  moreover have "length (stream_bytes got) \<le> unat cr" by (rule wf_stream_credit) fact
  then have "int (length (stream_bytes got)) \<le> int (unat cr)" by (simp only: of_nat_le_iff)
  ultimately show False using assms(1) by simp
qed

lemma upload_beyond_credit_never_completes_witness:
  "\<forall>st. fst (readRequestBody None (newStreamValidator 7 1 0 False 0) 2 ''d'' ''r'' sample_events)
    \<noteq> BodyReady st [1, 2]"
  by (rule allI, rule upload_beyond_credit_never_completes)
    (simp_all add: sample_events_sliced)

text \<open>C33: the resolver is called only with references in scope. Whatever arrives and whatever the
  resolver returns, every reference it was called with lies under the prefix
  \<open>deployment/<id>/request/<id>/request/\<close> of the request. The calls are the accepted
  references in their order, all of them when the body is ready, else without the last one at
  most. A reference out of scope that is accepted ends the read without a body.\<close>

theorem out_of_scope_refs_never_resolved:
  assumes "readRequestBody refs v exp dep rid evs = (res, s', v', rest)"
  shows "(\<forall>b\<in>set (rb_calls s'). bodyRefObjectKeyScoped b dep rid)
    \<and> (\<exists>used bs. evs = used @ rest
         \<and> bs = body_refs (frames_of (gate_passed validate_step v (arrivals_of used)))
         \<and> (rb_calls s' = bs \<or> (\<exists>b. bs = rb_calls s' @ [b]))
         \<and> ((\<exists>st body. res = BodyReady st body) \<longrightarrow> rb_calls s' = bs))"
proof -
  obtain used where used: "evs = used @ rest"
      and "called refs dep rid (frames_of (gate_passed validate_step v (arrivals_of used))) s'"
      and "\<And>st body. res = BodyReady st body \<Longrightarrow> collected (if 0 < sint exp then exp else 0) refs dep rid
             (frames_of (gate_passed validate_step v (arrivals_of used))) s'"
    using readRequestBody_ends [of exp refs dep rid v evs] unfolding assms by (auto simp: read_ends_def Let_def)
  then show ?thesis by (intro conjI exI [of _ used] exI) (auto simp: called_def collected_def refs_in_scope_def)
qed

text \<open>In the witness the first reference is resolved and the second, of another request, is not.\<close>

definition sample_scope_events :: "body_event list" where
  "sample_scope_events = [BodyFrame 0 (Some (sample_start 1 7)),
     BodyFrame 1 (Some (sample_ref_frame 2 ''deployment/d/request/r/request/x'')),
     BodyFrame 2 (Some (sample_ref_frame 3 ''deployment/d/request/q/request/x''))]"

theorem out_of_scope_refs_never_resolved_witness:
  "\<exists>s v. readRequestBody (Some sample_resolver) (newStreamValidator 7 3 0 True 0) 3 ''d'' ''r'' sample_scope_events
       = (BodyFailed scopeMismatch, s, v, [])
     \<and> rb_calls s = [sample_ref ''deployment/d/request/r/request/x'']
     \<and> (\<forall>b\<in>set (rb_calls s). bodyRefObjectKeyScoped b ''d'' ''r'')"
proof -
  have "\<exists>s v. readRequestBody (Some sample_resolver) (newStreamValidator 7 3 0 True 0) 3 ''d'' ''r'' sample_scope_events
       = (BodyFailed scopeMismatch, s, v, []) \<and> rb_calls s = [sample_ref ''deployment/d/request/r/request/x'']"
    by (simp add: sample_scope_events_def body_eval sample_resolver_def Let_def word_le_nat_alt bodyStop_def)
  then obtain s v where r: "readRequestBody (Some sample_resolver) (newStreamValidator 7 3 0 True 0) 3 ''d'' ''r''
      sample_scope_events = (BodyFailed scopeMismatch, s, v, [])"
    "rb_calls s = [sample_ref ''deployment/d/request/r/request/x'']" by blast
  from out_of_scope_refs_never_resolved [OF r(1)] r show ?thesis by blast
qed

text \<open>C34: the prefixes of two requests never overlap, as long as the identifiers hold no slash: a
  reference in scope for both is of the same deployment and the same request.\<close>

theorem body_ref_scopes_disjoint:
  assumes "bodyRefObjectKeyScoped b dep1 rid1" and "bodyRefObjectKeyScoped b dep2 rid2"
    and "CHR ''/'' \<notin> set dep1" "CHR ''/'' \<notin> set dep2" "CHR ''/'' \<notin> set rid1" "CHR ''/'' \<notin> set rid2"
  shows "dep1 = dep2 \<and> rid1 = rid2"
proof -
  from assms(1,2) obtain x y where "GetObjectKey b = bodyRefScope dep1 rid1 @ x"
    and "GetObjectKey b = bodyRefScope dep2 rid2 @ y" unfolding scoped_iff by blast
  then have "bodyRefScope dep1 rid1 @ x = bodyRefScope dep2 rid2 @ y" by simp
  then have "dep1 @ CHR ''/'' # ''request/'' @ rid1 @ CHR ''/'' # ''request/'' @ x
    = dep2 @ CHR ''/'' # ''request/'' @ rid2 @ CHR ''/'' # ''request/'' @ y"
    by (simp add: bodyRefScope_def)
  then have "dep1 = dep2" and "rid1 @ CHR ''/'' # ''request/'' @ x = rid2 @ CHR ''/'' # ''request/'' @ y"
    using split_at_separator [OF assms(3,4)] by auto
  then show ?thesis using split_at_separator [OF assms(5,6)] by auto
qed

theorem body_ref_scopes_disjoint_witness:
  "let b = \<lparr>brf_s3 = Some \<lparr>object_key = ''deployment/d/request/r/request/body'', signed_url = [],
             expires_unix_ms = 0\<rparr>, expected_size_bytes = 0, sha256_hex = []\<rparr>
   in bodyRefObjectKeyScoped b ''d'' ''r'' \<and> \<not> bodyRefObjectKeyScoped b ''d'' ''q''"
proof -
  let ?b = "\<lparr>brf_s3 = Some \<lparr>object_key = ''deployment/d/request/r/request/body'', signed_url = [],
             expires_unix_ms = 0\<rparr>, expected_size_bytes = 0, sha256_hex = []\<rparr>"
  have "bodyRefObjectKeyScoped ?b ''d'' ''r''"
    by (simp add: bodyRefObjectKeyScoped_def GetObjectKey_def bodyRefScope_def)
  moreover from body_ref_scopes_disjoint [OF this, of "''d''" "''q''"]
  have "\<not> bodyRefObjectKeyScoped ?b ''d'' ''q''" by auto
  ultimately show ?thesis by (simp add: Let_def)
qed

text \<open>A failed read reports nothing but its own errors: the scope mismatch, or the error the
  resolver returned for a reference in scope.\<close>

lemma body_read_failures:
  assumes "readRequestBody refs v exp dep rid evs = (BodyFailed e, s', v', rest)"
  shows "own_failure refs dep rid e"
  using readRequestBody_ends [of exp refs dep rid v evs] unfolding assms
  by (auto simp: read_ends_def Let_def called_def)

end
