(* ===== verification/Body_Ref.thy ===== *)
theory Body_Ref
  imports Request_Body
begin

text \<open>
  \<open>egress/bodyref.go\<close>: \<open>HTTPBodyRefResolver\<close>, which downloads a referenced request body and checks
  its size and its SHA-256 digest. The HTTP exchange is an argument, a function from the signed
  URL to what \<open>http.Client.Do\<close> and the response give; the clock reading another. The contract of
  the interface \<open>BodyRefResolver\<close> is the locale \<open>body_ref_resolver\<close>, under which the request body
  is proved verified, interpreted on \<open>DownloadBodyRef\<close>.
\<close>

section \<open>The resolver\<close>

definition bodyRefFailure :: "string \<Rightarrow> ErrorFrame" where
  "bodyRefFailure reason =
     \<lparr>ef_code = ERROR_CODE_BODY_REF_UNAVAILABLE, ef_details = [(errorFactDetailKey, reason)]\<rparr>"

definition bodyRefUnavailableFact :: string where
  "bodyRefUnavailableFact = ''body_ref_unavailable''"

definition bodyRefExpiredFact :: string where
  "bodyRefExpiredFact = ''body_ref_expired''"

definition bodyRefSizeMismatchFact :: string where
  "bodyRefSizeMismatchFact = ''body_ref_size_mismatch''"

definition bodyRefChecksumMismatchFact :: string where
  "bodyRefChecksumMismatchFact = ''body_ref_checksum_mismatch''"

text \<open>
  What the request gives: \<open>NewRequest\<close> refuses the URL, \<open>Do\<close> fails, or a response with a status,
  the bytes its body delivers, and how reading ends: with \<open>EOF\<close> (together with the last bytes or
  after them, which makes no difference), with an error returned together with the last bytes, or
  with an error returned by the read after them.
\<close>

datatype read_end = EndsEOF | FailsWithLast | FailsAfter

datatype http_outcome = RequestRefused | TransportFailed | HttpResponse int bytes read_end

text \<open>The clock is read in nanoseconds; \<open>time.UnixMilli(t)\<close> is \<open>t\<close> milliseconds.\<close>

definition validate :: "int \<Rightarrow> BodyRefFrame \<Rightarrow> ErrorFrame + S3BodyRef" where
  "validate now frame =
     (case brf_s3 frame of
        None \<Rightarrow> Inl (bodyRefFailure bodyRefUnavailableFact)
      | Some ref \<Rightarrow>
          (if signed_url ref = [] then Inl (bodyRefFailure bodyRefUnavailableFact)
           else if 0 < sint (expires_unix_ms ref) \<and> \<not> now < sint (expires_unix_ms ref) * 1000000
             then Inl (bodyRefFailure bodyRefExpiredFact)
           else Inr ref))"

text \<open>
  \<open>io.ReadAll(io.LimitReader(body, n))\<close> for a positive \<open>n\<close>: the limit cuts a read short that would
  go beyond it and makes no further read. So an error that comes with the last bytes is seen when
  these are within the limit, an error after them only when bytes are still missing to the limit.
\<close>

definition readAllLimited :: "nat \<Rightarrow> bytes \<Rightarrow> read_end \<Rightarrow> bytes option" where
  "readAllLimited n body ending =
     (case ending of
        EndsEOF \<Rightarrow> Some (take n body)
      | FailsWithLast \<Rightarrow> (if length body \<le> n then None else Some (take n body))
      | FailsAfter \<Rightarrow> (if length body < n then None else Some (take n body)))"

definition fetch :: "(string \<Rightarrow> http_outcome) \<Rightarrow> S3BodyRef \<Rightarrow> u64 \<Rightarrow> ErrorFrame + bytes" where
  "fetch get ref expected =
     (case get (signed_url ref) of
        RequestRefused \<Rightarrow> Inl (bodyRefFailure bodyRefUnavailableFact)
      | TransportFailed \<Rightarrow> Inl (bodyRefFailure bodyRefUnavailableFact)
      | HttpResponse status body ending \<Rightarrow>
          (if status < 200 \<or> 300 \<le> status then Inl (bodyRefFailure bodyRefUnavailableFact)
           else if 9223372036854775807 \<le> expected then Inl (bodyRefFailure bodyRefSizeMismatchFact)
           else (case readAllLimited (nat (sint expected + 1)) body ending of
                   None \<Rightarrow> Inl (bodyRefFailure bodyRefUnavailableFact)
                 | Some b \<Rightarrow> Inr b)))"

definition verifyBodyRef :: "BodyRefFrame \<Rightarrow> bytes \<Rightarrow> ErrorFrame option" where
  "verifyBodyRef frame body =
     (if (0 < expected_size_bytes frame \<or> sha256_hex frame \<noteq> []) \<and> expected_size_bytes frame \<noteq> ulen body
        then Some (bodyRefFailure bodyRefSizeMismatchFact)
      else if sha256_hex frame \<noteq> []
           \<and> \<not> EqualFold (EncodeToString (Sum256 body)) (sha256_hex frame)
        then Some (bodyRefFailure bodyRefChecksumMismatchFact)
      else None)"

definition DownloadBodyRef :: "int \<Rightarrow> (string \<Rightarrow> http_outcome) \<Rightarrow> BodyRefFrame \<Rightarrow> ErrorFrame + bytes" where
  "DownloadBodyRef now get frame =
     (case validate now frame of
        Inl failure \<Rightarrow> Inl failure
      | Inr ref \<Rightarrow>
          (case fetch get ref (expected_size_bytes frame) of
             Inl failure \<Rightarrow> Inl failure
           | Inr body \<Rightarrow>
               (case verifyBodyRef frame body of Some failure \<Rightarrow> Inl failure | None \<Rightarrow> Inr body)))"

section \<open>What a successful download says\<close>

text \<open>The reference names a size or a digest, so the size is checked.\<close>

definition size_checked :: "BodyRefFrame \<Rightarrow> bool" where
  "size_checked frame \<longleftrightarrow> 0 < expected_size_bytes frame \<or> sha256_hex frame \<noteq> []"

lemma expected_limit:
  assumes "\<not> 9223372036854775807 \<le> (expected :: u64)"
  shows "nat (sint expected + 1) = Suc (unat expected)"
proof -
  have "unat expected < 9223372036854775807" using assms by (simp add: word_le_nat_alt)
  then have "sint expected = int (unat expected)" by (intro sint_small) simp
  then show ?thesis by (simp add: nat_add_distrib)
qed

lemma validate_Inr:
  assumes "validate now frame = Inr ref"
  shows "brf_s3 frame = Some ref \<and> signed_url ref \<noteq> []
    \<and> \<not> (0 < sint (expires_unix_ms ref) \<and> sint (expires_unix_ms ref) * 1000000 \<le> now)"
  using assms by (auto simp: validate_def split: option.splits if_splits)

lemma fetch_Inr:
  assumes "fetch get ref expected = Inr body"
  shows "\<exists>status served ending. get (signed_url ref) = HttpResponse status served ending
    \<and> 200 \<le> status \<and> status < 300 \<and> unat expected < 2 ^ 63 - 1
    \<and> body = take (Suc (unat expected)) served"
proof -
  obtain status served ending where r: "get (signed_url ref) = HttpResponse status served ending"
    using assms by (auto simp: fetch_def split: http_outcome.splits)
  have ok: "\<not> (status < 200 \<or> 300 \<le> status)" and small: "\<not> 9223372036854775807 \<le> expected"
    using assms r by (auto simp: fetch_def split: if_splits)
  then have "body = take (Suc (unat expected)) served"
    using assms r expected_limit [OF small]
    by (auto simp: fetch_def readAllLimited_def split: if_splits read_end.splits)
  moreover have "unat expected < 2 ^ 63 - 1" using small by (simp add: word_le_nat_alt)
  ultimately show ?thesis using r ok by auto
qed

lemma DownloadBodyRef_Inr:
  assumes "DownloadBodyRef now get frame = Inr body"
  obtains ref where "validate now frame = Inr ref"
    and "fetch get ref (expected_size_bytes frame) = Inr body" and "verifyBodyRef frame body = None"
  using assms by (auto simp: DownloadBodyRef_def split: sum.splits option.splits)

lemma download_size:
  assumes "DownloadBodyRef now get frame = Inr body" and "size_checked frame"
  shows "length body = unat (expected_size_bytes frame)"
proof -
  from assms(1) obtain ref where f: "fetch get ref (expected_size_bytes frame) = Inr body"
    and v: "verifyBodyRef frame body = None" by (rule DownloadBodyRef_Inr)
  from fetch_Inr [OF f] have "length body < 2 ^ 64"
    using unat_less_64 [of "expected_size_bytes frame"] by auto
  then have "unat (ulen body) = length body" by (rule unat_ulen_64)
  moreover have "expected_size_bytes frame = ulen body"
    using v assms(2) by (auto simp: verifyBodyRef_def size_checked_def split: if_splits)
  ultimately show ?thesis by simp
qed

lemma download_digest:
  assumes "DownloadBodyRef now get frame = Inr body" and "sha256_hex frame \<noteq> []"
  shows "EqualFold (EncodeToString (Sum256 body)) (sha256_hex frame)"
  using assms by (auto elim!: DownloadBodyRef_Inr simp: verifyBodyRef_def split: if_splits)

section \<open>The interface\<close>

text \<open>
  What a client of \<open>BodyRefResolver\<close> relies on: a body that is returned has the size and the
  digest the reference names, and a failure is a body-reference failure.
\<close>

locale body_ref_resolver =
  fixes download :: resolver
  assumes sized: "download cs b = Inr body \<Longrightarrow> size_checked b \<Longrightarrow>
      length body = unat (expected_size_bytes b)"
    and digested: "download cs b = Inr body \<Longrightarrow> sha256_hex b \<noteq> [] \<Longrightarrow>
      EqualFold (EncodeToString (Sum256 body)) (sha256_hex b)"
    and failure_code: "download cs b = Inl e \<Longrightarrow> ef_code e = ERROR_CODE_BODY_REF_UNAVAILABLE"
begin

lemma accepted_ref_verified:
  assumes "acceptBodyRef s b = (True, s')" and "rb_refs s = Some download"
  shows "bodyRefObjectKeyScoped b (rb_deploymentID s) (rb_requestID s)
    \<and> (size_checked b \<longrightarrow> rb_received s' = expected_size_bytes b
        \<and> length (rb_body s') = unat (expected_size_bytes b))
    \<and> (sha256_hex b \<noteq> [] \<longrightarrow> EqualFold (EncodeToString (Sum256 (rb_body s'))) (sha256_hex b))"
proof -
  from assms obtain body where d: "download (rb_calls s) b = Inr body"
    and s': "s' = s\<lparr>rb_calls := rb_calls s @ [b], rb_body := body, rb_received := ulen body\<rparr>"
    and sc: "bodyRefObjectKeyScoped b (rb_deploymentID s) (rb_requestID s)"
    by (auto simp: acceptBodyRef_def Let_def split: if_splits sum.splits)
  have "size_checked b \<Longrightarrow> ulen body = expected_size_bytes b"
    using sized [OF d] by (simp add: ulen_def)
  then show ?thesis using s' sc sized [OF d] digested [OF d] by simp
qed

lemma failed_read_code:
  assumes "readRequestBody (Some download) v exp dep rid evs = (BodyFailed e, s', v', rest)"
  shows "ef_code e = ERROR_CODE_BODY_REF_UNAVAILABLE"
  using body_read_failures [OF assms] failure_code
  by (auto simp: own_failure_def scopeMismatch_def)

end

text \<open>
  The fields of the resolver: the HTTP client and the clock, each with the default of the program when
  it is nil. \<open>Download\<close> is the method on the whole value.
\<close>

record HTTPBodyRefResolver =
  rv_Client :: "(string \<Rightarrow> http_outcome) option"
  rv_Now :: "int option"

definition resolver_client :: "(string \<Rightarrow> http_outcome) \<Rightarrow> HTTPBodyRefResolver \<Rightarrow> string \<Rightarrow> http_outcome" where
  "resolver_client DefaultClient r = (case rv_Client r of Some c \<Rightarrow> c | None \<Rightarrow> DefaultClient)"

definition resolver_now :: "int \<Rightarrow> HTTPBodyRefResolver \<Rightarrow> int" where
  "resolver_now clock r = (case rv_Now r of Some t \<Rightarrow> t | None \<Rightarrow> clock)"

definition Download ::
  "(string \<Rightarrow> http_outcome) \<Rightarrow> int \<Rightarrow> HTTPBodyRefResolver \<Rightarrow> BodyRefFrame \<Rightarrow> ErrorFrame + bytes" where
  "Download DefaultClient clock r = DownloadBodyRef (resolver_now clock r) (resolver_client DefaultClient r)"

lemma download_failure:
  "DownloadBodyRef now get b = Inl e \<Longrightarrow>
     e \<in> bodyRefFailure ` {bodyRefUnavailableFact, bodyRefExpiredFact,
       bodyRefSizeMismatchFact, bodyRefChecksumMismatchFact}"
  by (auto simp: DownloadBodyRef_def validate_def fetch_def verifyBodyRef_def
      split: option.splits sum.splits if_splits http_outcome.splits)

text \<open>The clock and the network may answer every call differently.\<close>

interpretation http_resolver: body_ref_resolver "\<lambda>cs. DownloadBodyRef (now cs) (get cs)" for now get
  by unfold_locales (auto dest: download_size download_digest download_failure simp: bodyRefFailure_def)

interpretation resolver_value: body_ref_resolver "\<lambda>cs. Download (DefaultClient cs) (clock cs) r" for DefaultClient clock r
  unfolding Download_def by (rule http_resolver.body_ref_resolver_axioms)

section \<open>Properties\<close>

definition sample_body_ref :: "u64 \<Rightarrow> i64 \<Rightarrow> BodyRefFrame" where
  "sample_body_ref n expires =
     \<lparr>brf_s3 = Some \<lparr>object_key = ''deployment/d/request/r/request/body'', signed_url = ''u'',
        expires_unix_ms = expires\<rparr>, expected_size_bytes = n, sha256_hex = []\<rparr>"

definition sample_get :: "string \<Rightarrow> http_outcome" where
  "sample_get url = HttpResponse 200 [4, 5] EndsEOF"

text \<open>C32: a body is returned only for an unexpired reference with a URL, from a 2xx response; when the
  reference names a size or a digest, it is the whole object served, of that size, and its
  SHA-256 is the digest named (in either case of the hexadecimal letters).\<close>

theorem downloaded_body_verified:
  assumes "DownloadBodyRef now get frame = Inr body" and "size_checked frame"
  shows "\<exists>ref status ending. brf_s3 frame = Some ref \<and> signed_url ref \<noteq> []
    \<and> \<not> (0 < sint (expires_unix_ms ref) \<and> sint (expires_unix_ms ref) * 1000000 \<le> now)
    \<and> get (signed_url ref) = HttpResponse status body ending \<and> 200 \<le> status \<and> status < 300
    \<and> length body = unat (expected_size_bytes frame)
    \<and> (sha256_hex frame \<noteq> [] \<longrightarrow> EqualFold (EncodeToString (Sum256 body)) (sha256_hex frame))"
proof -
  from assms(1) obtain ref where v: "validate now frame = Inr ref"
    and f: "fetch get ref (expected_size_bytes frame) = Inr body" by (rule DownloadBodyRef_Inr)
  note size = download_size [OF assms]
  from fetch_Inr [OF f] obtain status served ending where r: "get (signed_url ref) = HttpResponse status served ending"
    and st: "200 \<le> status" "status < 300"
    and body: "body = take (Suc (unat (expected_size_bytes frame))) served" by blast
  have "length served \<le> unat (expected_size_bytes frame)" using body size by auto
  then have "body = served" using body by simp
  then show ?thesis using validate_Inr [OF v] r st size download_digest [OF assms(1)] by blast
qed

theorem downloaded_body_verified_witness:
  "length [4, 5 :: byte] = unat (expected_size_bytes (sample_body_ref 2 0))"
proof -
  have d: "DownloadBodyRef 0 sample_get (sample_body_ref 2 0) = Inr [4, 5]"
    by (simp add: DownloadBodyRef_def validate_def fetch_def verifyBodyRef_def readAllLimited_def
        sample_body_ref_def sample_get_def ulen_def word_le_nat_alt)
  have "size_checked (sample_body_ref 2 0)" by (simp add: size_checked_def sample_body_ref_def)
  from downloaded_body_verified [OF d this] show ?thesis by blast
qed

text \<open>An expired reference is refused before anything is fetched, whatever the server would say:
  from the very millisecond of its expiry on.\<close>

lemma expired_reference_never_fetched:
  assumes "brf_s3 frame = Some ref" and "signed_url ref \<noteq> []" and "0 < sint (expires_unix_ms ref)"
    and "sint (expires_unix_ms ref) * 1000000 \<le> now"
  shows "DownloadBodyRef now get frame = Inl (bodyRefFailure bodyRefExpiredFact)"
  using assms by (simp add: DownloadBodyRef_def validate_def not_less)

text \<open>The worker with this resolver takes a referenced body only under the request's own prefix,
  and then \<open>received\<close> is the size announced by the reference and the digest is the one named.\<close>

lemma accepted_body_ref_verified:
  assumes "acceptBodyRef s b = (True, s')" and "rb_refs s = Some (\<lambda>cs. DownloadBodyRef (now cs) (get cs))"
  shows "bodyRefObjectKeyScoped b (rb_deploymentID s) (rb_requestID s)
    \<and> (size_checked b \<longrightarrow> rb_received s' = expected_size_bytes b
        \<and> length (rb_body s') = unat (expected_size_bytes b))
    \<and> (sha256_hex b \<noteq> [] \<longrightarrow> EqualFold (EncodeToString (Sum256 (rb_body s'))) (sha256_hex b))"
  by (rule http_resolver.accepted_ref_verified [OF assms])

text \<open>A reference without size and digest is not checked at all, and the reader is limited to one
  byte: of any object served, the executor gets the first byte and no error.\<close>

lemma unsized_reference_truncated:
  assumes "validate now frame = Inr ref" and "expected_size_bytes frame = 0" and "sha256_hex frame = []"
    and "get (signed_url ref) = HttpResponse 200 served EndsEOF"
  shows "DownloadBodyRef now get frame = Inr (take 1 served)"
  using assms by (simp add: DownloadBodyRef_def fetch_def verifyBodyRef_def readAllLimited_def
      word_le_nat_alt)

lemma unsized_reference_truncated_witness:
  "DownloadBodyRef 0 sample_get (sample_body_ref 0 0) = Inr [4]"
proof -
  have "DownloadBodyRef 0 sample_get (sample_body_ref 0 0) = Inr (take 1 [4, 5])"
    by (rule unsized_reference_truncated [of _ _ "the (brf_s3 (sample_body_ref 0 0))"])
      (simp_all add: sample_body_ref_def sample_get_def validate_def)
  then show ?thesis by simp
qed

end
