(* ===== verification/Subjects.thy ===== *)
theory Subjects
  imports Go_Strings
begin

text \<open>
  The subjects of \<open>egress/types.go\<close>: the token check, the subjects a worker session listens and
  publishes on, and the configuration checks beside them. The Unicode tables beyond Latin-1 are
  arguments (\<open>letter\<close> and \<open>digit\<close>), so what is shown holds for any version of them. The locale
  \<open>token_alphabet\<close> is what the subject builders rely on: an accepted token holds no dot.
\<close>

section \<open>Tokens\<close>

text \<open>\<open>unicode.IsLetter\<close> and \<open>unicode.IsDigit\<close>: a table up to \<open>U+00FF\<close>, range tables beyond.\<close>

record unicode_tables =
  letter :: "nat \<Rightarrow> bool"
  digit :: "nat \<Rightarrow> bool"

definition IsLetter :: "unicode_tables \<Rightarrow> nat \<Rightarrow> bool" where
  "IsLetter uni r =
     (if r \<le> 255
      then in_range 65 90 r \<or> in_range 97 122 r \<or> r = 0xAA \<or> r = 0xB5 \<or> r = 0xBA
        \<or> in_range 0xC0 0xD6 r \<or> in_range 0xD8 0xF6 r \<or> in_range 0xF8 0xFF r
      else letter uni r)"

definition IsDigit :: "unicode_tables \<Rightarrow> nat \<Rightarrow> bool" where
  "IsDigit uni r = (if r \<le> 255 then in_range 48 57 r else digit uni r)"

datatype token_error = errSubjectTokenRequired | errSubjectTokenUnsafe nat

definition safe_rune :: "unicode_tables \<Rightarrow> nat \<Rightarrow> bool" where
  "safe_rune uni r \<longleftrightarrow> IsLetter uni r \<or> IsDigit uni r \<or> r = of_char (CHR ''-'') \<or> r = of_char (CHR ''_'')"

fun checkRunes :: "unicode_tables \<Rightarrow> nat list \<Rightarrow> token_error option" where
  "checkRunes uni [] = None"
| "checkRunes uni (r # rs) =
     (if safe_rune uni r then checkRunes uni rs else Some (errSubjectTokenUnsafe r))"

definition ValidateSubjectToken :: "unicode_tables \<Rightarrow> string \<Rightarrow> token_error option" where
  "ValidateSubjectToken uni token =
     (if token = [] then Some errSubjectTokenRequired else checkRunes uni (string_runes token))"

section \<open>Subjects\<close>

datatype StreamDirection = DirectionControlToExecutor | DirectionExecutorToControl | DirectionOther string

definition direction_text :: "StreamDirection \<Rightarrow> string" where
  "direction_text d =
     (case d of DirectionControlToExecutor \<Rightarrow> ''c2e'' | DirectionExecutorToControl \<Rightarrow> ''e2c''
              | DirectionOther s \<Rightarrow> s)"

text \<open>\<open>StreamDirection\<close> is a string type: any string, of which the switch knows two.\<close>

definition as_direction :: "string \<Rightarrow> StreamDirection" where
  "as_direction s =
     (if s = ''c2e'' then DirectionControlToExecutor
      else if s = ''e2c'' then DirectionExecutorToControl else DirectionOther s)"

datatype subject_error =
    WorkerIdError token_error
  | SessionIdError token_error
  | RequestIdError token_error
  | errUnsupportedStreamDirection string

definition RegistrationSubject :: string where
  "RegistrationSubject = ''straw.v1.control.register''"

definition HeartbeatSubject :: string where
  "HeartbeatSubject = ''straw.v1.control.heartbeat''"

definition ControlInboxPrefix :: string where
  "ControlInboxPrefix = ''_INBOX.ctl''"

definition WorkerInboxPrefix :: "unicode_tables \<Rightarrow> string \<Rightarrow> subject_error + string" where
  "WorkerInboxPrefix uni workerID =
     (case ValidateSubjectToken uni workerID of
        Some err \<Rightarrow> Inl (WorkerIdError err)
      | None \<Rightarrow> Inr (''_INBOX.wrk.'' @ workerID))"

definition AssignmentSubject :: "unicode_tables \<Rightarrow> string \<Rightarrow> string \<Rightarrow> subject_error + string" where
  "AssignmentSubject uni workerID sessionID =
     (case ValidateSubjectToken uni workerID of
        Some err \<Rightarrow> Inl (WorkerIdError err)
      | None \<Rightarrow>
          (case ValidateSubjectToken uni sessionID of
             Some err \<Rightarrow> Inl (SessionIdError err)
           | None \<Rightarrow> Inr (''straw.v1.executor.'' @ workerID @ ''.'' @ sessionID @ ''.assign'')))"

definition StreamSubject ::
  "unicode_tables \<Rightarrow> string \<Rightarrow> string \<Rightarrow> string \<Rightarrow> StreamDirection \<Rightarrow> subject_error + string" where
  "StreamSubject uni requestID workerID sessionID direction =
     (case ValidateSubjectToken uni requestID of
        Some err \<Rightarrow> Inl (RequestIdError err)
      | None \<Rightarrow>
     (case ValidateSubjectToken uni workerID of
        Some err \<Rightarrow> Inl (WorkerIdError err)
      | None \<Rightarrow>
     (case ValidateSubjectToken uni sessionID of
        Some err \<Rightarrow> Inl (SessionIdError err)
      | None \<Rightarrow>
     (case direction of
        DirectionOther d \<Rightarrow> Inl (errUnsupportedStreamDirection d)
      | _ \<Rightarrow> Inr (''straw.v1.req.'' @ requestID @ ''.'' @ workerID @ ''.'' @ sessionID @ ''.''
                   @ direction_text direction)))))"

definition TerminalSubject ::
  "unicode_tables \<Rightarrow> string \<Rightarrow> string \<Rightarrow> string \<Rightarrow> StreamDirection \<Rightarrow> subject_error + string" where
  "TerminalSubject uni requestID workerID sessionID direction =
     StreamSubject uni requestID workerID sessionID direction"

section \<open>Configuration checks\<close>

definition payloadSafetyMargin :: u64 where
  "payloadSafetyMargin = 65536"

datatype payload_error = errMaxPayloadTooSmall u64 | errFrameBodyLimitTooLarge u64 u64

definition ValidateMaxPayload :: "u64 option \<Rightarrow> u64 \<Rightarrow> u64 \<Rightarrow> u64 \<Rightarrow> payload_error option" where
  "ValidateMaxPayload maxPayloadBytes maxFrameDataBytes maxInlineRequestBodyBytes maxInlineResponseBodyBytes =
     (case maxPayloadBytes of
        None \<Rightarrow> None
      | Some m \<Rightarrow>
          (if m \<le> payloadSafetyMargin then Some (errMaxPayloadTooSmall m)
           else (let limit = max maxInlineRequestBodyBytes maxFrameDataBytes;
                     limit' = max limit maxInlineResponseBodyBytes
                 in if m - payloadSafetyMargin < limit'
                    then Some (errFrameBodyLimitTooLarge limit' m) else None)))"

datatype servers_error = errNATSServersRequired | errNATSServerEmpty nat

fun checkServers :: "nat \<Rightarrow> string list \<Rightarrow> servers_error option" where
  "checkServers i [] = None"
| "checkServers i (server # servers) =
     (if server = [] then Some (errNATSServerEmpty i) else checkServers (Suc i) servers)"

definition ValidateServers :: "string list \<Rightarrow> servers_error option" where
  "ValidateServers servers = (if servers = [] then Some errNATSServersRequired else checkServers 0 servers)"

section \<open>Splitting a subject at its dots\<close>

fun split_dots :: "string \<Rightarrow> string list" where
  "split_dots [] = [ [] ]"
| "split_dots (c # cs) =
     (if c = CHR ''.'' then [] # split_dots cs
      else (case split_dots cs of [] \<Rightarrow> [ [c] ] | t # ts \<Rightarrow> (c # t) # ts))"

lemma split_dots_nonempty [simp]: "split_dots s \<noteq> []"
  by (induction s) (auto split: list.splits)

lemma split_dots_token: "CHR ''.'' \<notin> set t \<Longrightarrow> split_dots t = [t]"
  by (induction t) auto

lemma split_dots_append:
  "CHR ''.'' \<notin> set t \<Longrightarrow> split_dots (t @ CHR ''.'' # s) = t # split_dots s"
  by (induction t) auto

text \<open>
  What the builders of subjects rely on: a predicate on tokens under which no token holds a dot.
  Then a subject splits into its tokens in one way.
\<close>

locale token_alphabet =
  fixes ok :: "string \<Rightarrow> bool"
  assumes no_dot: "ok t \<Longrightarrow> CHR ''.'' \<notin> set t"
begin

lemma split_ok: "ok t \<Longrightarrow> split_dots (t @ CHR ''.'' # s) = t # split_dots s"
  by (rule split_dots_append) (rule no_dot)

lemma split_last: "ok t \<Longrightarrow> split_dots t = [t]"
  by (rule split_dots_token) (rule no_dot)

end

lemma checkRunes_None: "checkRunes uni rs = None \<longleftrightarrow> (\<forall>r\<in>set rs. safe_rune uni r)"
  by (induction rs) auto

lemma safe_rune_ascii:
  "r < 128 \<Longrightarrow> safe_rune uni r \<longleftrightarrow>
     in_range 65 90 r \<or> in_range 97 122 r \<or> in_range 48 57 r \<or> r = 45 \<or> r = 95"
  by (auto simp: safe_rune_def IsLetter_def IsDigit_def in_range_def)

lemma valid_token_ascii:
  assumes "ValidateSubjectToken uni t = None" and "c \<in> set t" and "(of_char c :: nat) < 128"
  shows "safe_rune uni (of_char c)"
proof -
  have "checkRunes uni (string_runes t) = None" using assms(1,2)
    by (cases t) (simp_all add: ValidateSubjectToken_def)
  moreover have "of_char c \<in> set (string_runes t)"
    unfolding string_runes_def using assms(2,3) by (intro ascii_byte_is_rune) auto
  ultimately show ?thesis by (simp add: checkRunes_None)
qed

lemma valid_token_no_dot: "ValidateSubjectToken uni t = None \<Longrightarrow> CHR ''.'' \<notin> set t"
  using valid_token_ascii [of uni t "CHR ''.''"] by (auto simp: safe_rune_ascii in_range_def)

interpretation subject_token: token_alphabet "\<lambda>t. ValidateSubjectToken uni t = None" for uni
  by unfold_locales (rule valid_token_no_dot)


lemmas token_facts = checkRunes_None safe_rune_ascii in_range_def

section \<open>What the subjects guarantee\<close>

lemma direction_text_ok: "split_dots (direction_text d) = [direction_text d]"
  if "d = DirectionControlToExecutor \<or> d = DirectionExecutorToControl"
  using that by (auto simp: direction_text_def)

lemma stream_subject_Inr:
  assumes "StreamSubject uni r w s d = Inr subj"
  shows "ValidateSubjectToken uni r = None" and "ValidateSubjectToken uni w = None"
    and "ValidateSubjectToken uni s = None"
    and "d = DirectionControlToExecutor \<or> d = DirectionExecutorToControl"
    and "subj = ''straw.v1.req.'' @ r @ ''.'' @ w @ ''.'' @ s @ ''.'' @ direction_text d"
  using assms
  by (auto simp: StreamSubject_def split: option.splits StreamDirection.splits)

lemma assignment_subject_Inr:
  assumes "AssignmentSubject uni w s = Inr subj"
  shows "ValidateSubjectToken uni w = None" and "ValidateSubjectToken uni s = None"
    and "subj = ''straw.v1.executor.'' @ w @ ''.'' @ s @ ''.assign''"
  using assms by (auto simp: AssignmentSubject_def split: option.splits)

lemma stream_subject_tokens:
  assumes "StreamSubject uni r w s d = Inr subj"
  shows "split_dots subj = [''straw'', ''v1'', ''req'', r, w, s, direction_text d]"
  using stream_subject_Inr [OF assms]
  by (simp add: subject_token.split_ok direction_text_ok)

lemma assignment_subject_tokens:
  assumes "AssignmentSubject uni w s = Inr subj"
  shows "split_dots subj = [''straw'', ''v1'', ''executor'', w, s, ''assign'']"
  using assignment_subject_Inr [OF assms]
  by (simp add: subject_token.split_ok)

text \<open>
  An accepted subject token is one token of a NATS subject: it is not empty, and the only
  single-byte characters in it are letters, digits, the hyphen and the underscore. In particular it
  holds no separator, no wildcard, no white space and no control character, whatever the tables of
  letters and digits beyond Latin-1 say.
\<close>

lemma accepted_token_is_one_token:
  assumes "ValidateSubjectToken uni t = None"
  shows "t \<noteq> [] \<and> set t \<inter> set ''.*> '' = {}
    \<and> (\<forall>c\<in>set t. (of_char c :: nat) < 128 \<longrightarrow>
         in_range 65 90 (of_char c) \<or> in_range 97 122 (of_char c) \<or> in_range 48 57 (of_char c)
           \<or> c = CHR ''-'' \<or> c = CHR ''_'')"
proof (intro conjI ballI impI)
  show "t \<noteq> []" using assms by (auto simp: ValidateSubjectToken_def)
  show "set t \<inter> set ''.*> '' = {}"
    using valid_token_ascii [OF assms, of "CHR ''.''"] valid_token_ascii [OF assms, of "CHR ''*''"]
      valid_token_ascii [OF assms, of "CHR ''>''"] valid_token_ascii [OF assms, of "CHR '' ''"]
    by (auto simp: safe_rune_ascii in_range_def)
next
  fix c assume c: "c \<in> set t" "(of_char c :: nat) < 128"
  have "(of_char c :: nat) = 45 \<Longrightarrow> c = CHR ''-''" "(of_char c :: nat) = 95 \<Longrightarrow> c = CHR ''_''"
    using of_char_eq_iff [of c "CHR ''-''", where 'a = nat] of_char_eq_iff [of c "CHR ''_''", where 'a = nat]
    by simp_all
  then show "in_range 65 90 (of_char c) \<or> in_range 97 122 (of_char c) \<or> in_range 48 57 (of_char c)
      \<or> c = CHR ''-'' \<or> c = CHR ''_''"
    using valid_token_ascii [OF assms c] c(2) by (auto simp: safe_rune_ascii)
qed

definition no_tables :: unicode_tables where
  "no_tables = \<lparr> letter = (\<lambda>_. False), digit = (\<lambda>_. False) \<rparr>"

lemma valid_token_samples [simp]:
  "ValidateSubjectToken no_tables ''worker-1'' = None"
  "ValidateSubjectToken no_tables ''s_7'' = None"
  "ValidateSubjectToken no_tables ''r2'' = None"
  by (simp_all add: ValidateSubjectToken_def string_runes_def runes_ascii safe_rune_ascii in_range_def)

text \<open>
  C40: A stream subject names its stream: two stream subjects are equal only when the request, the
  worker, the session and the direction are equal, and no stream subject is an assignment subject.
  So no choice of identifiers makes one request's frames arrive on another request's subscription.
\<close>

theorem stream_subject_injective:
  assumes "StreamSubject uni r w s d = Inr subj"
  shows "(StreamSubject uni r' w' s' d' = Inr subj \<longleftrightarrow> r' = r \<and> w' = w \<and> s' = s \<and> d' = d)
    \<and> AssignmentSubject uni w' s' \<noteq> Inr subj"
proof
  note parts = stream_subject_tokens [OF assms]
  show "StreamSubject uni r' w' s' d' = Inr subj \<longleftrightarrow> r' = r \<and> w' = w \<and> s' = s \<and> d' = d"
  proof
    assume other: "StreamSubject uni r' w' s' d' = Inr subj"
    from stream_subject_tokens [OF other] parts
    have eqs: "r' = r" "w' = w" "s' = s" "direction_text d' = direction_text d" by simp_all
    moreover have "d' = d"
      using eqs(4) stream_subject_Inr(4) [OF other] stream_subject_Inr(4) [OF assms]
      by (auto simp: direction_text_def)
    ultimately show "r' = r \<and> w' = w \<and> s' = s \<and> d' = d" by simp
  qed (use assms in simp)
  show "AssignmentSubject uni w' s' \<noteq> Inr subj"
    using assignment_subject_tokens [of uni w' s' subj] parts by auto
qed

theorem stream_subject_injective_witness:
  "StreamSubject no_tables ''r2'' ''worker-1'' ''s_7'' DirectionExecutorToControl
     \<noteq> Inr ''straw.v1.req.r2.worker-1.s_7.c2e''"
  using stream_subject_injective [of no_tables "''r2''" "''worker-1''" "''s_7''"
      DirectionControlToExecutor "''straw.v1.req.r2.worker-1.s_7.c2e''" "''r2''" "''worker-1''"
      "''s_7''" DirectionExecutorToControl]
  by (simp add: StreamSubject_def direction_text_def)

text \<open>
  The payload check accepts exactly the configurations in which the safety margin and the largest
  of the three body limits fit the NATS payload together, computed without wrap-around; with no
  payload configured it accepts everything.
\<close>

lemma max_payload_fits:
  "ValidateMaxPayload mp f i r = None \<longleftrightarrow>
     (case mp of None \<Rightarrow> True
      | Some m \<Rightarrow> 65536 < unat m \<and> 65536 + Max {unat f, unat i, unat r} \<le> unat m)"
proof (cases mp)
  case (Some m)
  have margin: "unat payloadSafetyMargin = 65536" by (simp add: payloadSafetyMargin_def)
  have le: "m \<le> payloadSafetyMargin \<longleftrightarrow> unat m \<le> 65536"
    by (simp add: word_le_nat_alt margin)
  have limit: "unat (max (max i f) r) = Max {unat f, unat i, unat r}"
    by (auto simp: max_def word_le_nat_alt)
  have room: "m - payloadSafetyMargin < l \<longleftrightarrow> unat m < 65536 + unat l" if "65536 < unat m" for l
  proof -
    have "unat (m - payloadSafetyMargin) = unat m - 65536"
      using that by (simp add: unat_sub_le margin word_le_nat_alt)
    then show ?thesis using that by (simp add: word_less_nat_alt less_diff_conv2 add.commute)
  qed
  show ?thesis
    unfolding Some ValidateMaxPayload_def Let_def option.case le
    using room [of "max (max i f) r"] by (auto simp: limit)
qed (simp add: ValidateMaxPayload_def)

end
