(* ===== verification/Admission.thy ===== *)
theory Admission
  imports Wire
begin

text \<open>
  Admission control of \<open>egress/types.go\<close>: the decision on an \<open>AssignRequest\<close>, and the capacity a
  heartbeat advertises (\<open>capacityFromConcurrency\<close> of \<open>egress/runtime.go\<close>). \<open>req.Validate()\<close> is
  generated code of the protocol module and an argument. The acknowledgement codes are ordered by
  precedence, so the decision has a specification independent of the order of the tests.
\<close>

section \<open>Capacity\<close>

record Capacity =
  cap_Draining :: bool
  cap_ActiveRequests :: u32
  cap_MaxConcurrency :: u32
  cap_SupportedModes :: "RequestMode list"

definition hasCapacity :: "Capacity \<Rightarrow> bool" where
  "hasCapacity c \<longleftrightarrow> (if cap_MaxConcurrency c = 0 then True else cap_ActiveRequests c < cap_MaxConcurrency c)"

definition supportsMode :: "Capacity \<Rightarrow> RequestMode \<Rightarrow> bool" where
  "supportsMode c mode \<longleftrightarrow>
     (if cap_SupportedModes c = [] then True else List.member (cap_SupportedModes c) mode)"

definition EvaluateAssignment ::
  "(AssignRequest \<Rightarrow> bool) \<Rightarrow> AssignRequest option \<Rightarrow> Capacity \<Rightarrow> AssignAckCode" where
  "EvaluateAssignment valid req capacity =
     (case req of
        None \<Rightarrow> ASSIGN_ACK_REJECTED_ERROR
      | Some r \<Rightarrow>
          (if \<not> valid r then ASSIGN_ACK_REJECTED_ERROR
           else if cap_Draining capacity then ASSIGN_ACK_REJECTED_DRAINING
           else if \<not> supportsMode capacity (ar_mode r) then ASSIGN_ACK_REJECTED_UNSUPPORTED
           else if \<not> hasCapacity capacity then ASSIGN_ACK_REJECTED_CAPACITY
           else ASSIGN_ACK_ACCEPTED))"

definition capacityFromConcurrency :: "u32 \<Rightarrow> u32 \<Rightarrow> u32" where
  "capacityFromConcurrency activeRequests maxConcurrency =
     (if maxConcurrency = 0 then 0
      else if maxConcurrency \<le> activeRequests then 0
      else maxConcurrency - activeRequests)"

section \<open>Precedence of the codes\<close>

fun ack_rank :: "AssignAckCode \<Rightarrow> nat" where
  "ack_rank ASSIGN_ACK_REJECTED_ERROR = 0"
| "ack_rank ASSIGN_ACK_REJECTED_DRAINING = 1"
| "ack_rank ASSIGN_ACK_REJECTED_UNSUPPORTED = 2"
| "ack_rank ASSIGN_ACK_REJECTED_CAPACITY = 3"
| "ack_rank ASSIGN_ACK_ACCEPTED = 4"

lemma ack_rank_inj: "ack_rank a = ack_rank b \<Longrightarrow> a = b"
  by (cases a; cases b) simp_all

instantiation AssignAckCode :: linorder
begin

definition less_eq_AssignAckCode :: "AssignAckCode \<Rightarrow> AssignAckCode \<Rightarrow> bool" where
  "less_eq_AssignAckCode a b \<longleftrightarrow> ack_rank a \<le> ack_rank b"

definition less_AssignAckCode :: "AssignAckCode \<Rightarrow> AssignAckCode \<Rightarrow> bool" where
  "less_AssignAckCode a b \<longleftrightarrow> ack_rank a < ack_rank b"

instance
  by standard (auto simp: less_eq_AssignAckCode_def less_AssignAckCode_def intro: ack_rank_inj)

end

lemmas ack_order = less_eq_AssignAckCode_def less_AssignAckCode_def

text \<open>
  The reasons to reject, each with the condition under which it applies; accepting always applies.
\<close>

fun objects :: "(AssignRequest \<Rightarrow> bool) \<Rightarrow> AssignRequest option \<Rightarrow> Capacity \<Rightarrow> AssignAckCode \<Rightarrow> bool" where
  "objects valid req c ASSIGN_ACK_REJECTED_ERROR \<longleftrightarrow> (\<forall>r. req = Some r \<longrightarrow> \<not> valid r)"
| "objects valid req c ASSIGN_ACK_REJECTED_DRAINING \<longleftrightarrow> cap_Draining c"
| "objects valid req c ASSIGN_ACK_REJECTED_UNSUPPORTED \<longleftrightarrow>
     (\<exists>r. req = Some r \<and> cap_SupportedModes c \<noteq> [] \<and> ar_mode r \<notin> set (cap_SupportedModes c))"
| "objects valid req c ASSIGN_ACK_REJECTED_CAPACITY \<longleftrightarrow>
     cap_MaxConcurrency c \<noteq> 0 \<and> cap_MaxConcurrency c \<le> cap_ActiveRequests c"
| "objects valid req c ASSIGN_ACK_ACCEPTED \<longleftrightarrow> True"

lemma decision_objects: "objects valid req c (EvaluateAssignment valid req c)"
  by (auto simp: EvaluateAssignment_def supportsMode_def hasCapacity_def not_less List.member_iff split: option.splits)

lemma decision_least: "objects valid req c a \<Longrightarrow> EvaluateAssignment valid req c \<le> a"
  by (cases a; cases req)
    (auto simp: EvaluateAssignment_def supportsMode_def hasCapacity_def ack_order not_less List.member_iff)

lemma accepted_iff:
  "EvaluateAssignment valid req c = ASSIGN_ACK_ACCEPTED \<longleftrightarrow>
     (\<exists>r. req = Some r \<and> valid r \<and> \<not> cap_Draining c \<and> supportsMode c (ar_mode r) \<and> hasCapacity c)"
  by (auto simp: EvaluateAssignment_def split: option.splits)

section \<open>Properties\<close>

text \<open>
  C22: The admission decision is the most important objection that applies: invalid before draining
  before unsupported before capacity, and acceptance exactly when there is none.
\<close>

theorem decision_is_least_objection:
  "EvaluateAssignment valid req c = (LEAST a. objects valid req c a)"
  by (rule Least_equality [symmetric]) (simp_all add: decision_objects decision_least)

text \<open>
  C30: The capacity a heartbeat advertises is the room left under the limit, as natural numbers and
  without wrap-around, and it is positive exactly when a limit is set and the admission test finds
  room. Without a limit the admission test always finds room, while zero is advertised.
\<close>

theorem advertised_capacity_is_room:
  "unat (capacityFromConcurrency active mx) = unat mx - unat active
   \<and> (0 < capacityFromConcurrency active mx \<longleftrightarrow>
        mx \<noteq> 0 \<and> hasCapacity \<lparr>cap_Draining = d, cap_ActiveRequests = active,
                            cap_MaxConcurrency = mx, cap_SupportedModes = ms\<rparr>)"
proof -
  have "unat (capacityFromConcurrency active mx) = unat mx - unat active"
    by (auto simp: capacityFromConcurrency_def word_le_nat_alt unat_sub_le not_le)
  moreover from this have "0 < capacityFromConcurrency active mx \<longleftrightarrow> unat active < unat mx"
    by (simp add: word_less_nat_alt)
  ultimately show ?thesis
    by (auto simp: hasCapacity_def word_less_nat_alt)
qed

end
