(* ===== verification/Worker_Base.thy ===== *)
theory Worker_Base
  imports Subjects Admission "HOL-Library.AList"
begin

text \<open>
  The \<open>Worker\<close> of \<open>egress/assignment.go\<close>: its construction, the operations under its lock, and the
  envelopes it answers and publishes with. What the requests and the worker do with them are the
  theories \<open>Decoded_Run\<close>, \<open>Tunnel\<close>, \<open>Request_Step\<close> and \<open>Worker\<close>.
\<close>

section \<open>Construction and state\<close>

record Identity =
  id_WorkerID :: string
  id_CredentialID :: string
  id_ExecutorType :: string
  id_PrivateKey :: bytes

record Worker =
  wk_id :: Identity
  wk_sessionID :: string
  wk_maxConcurrency :: u32
  wk_supportedModes :: "RequestMode list"
  wk_active :: u32
  wk_draining :: bool
  wk_cancels :: "(string \<times> nat) list"

text \<open>
  The connection and the executor are only tested for nil here. A cancel function is the number of
  its context; the map of cancel functions is an association list with distinct keys.
\<close>

record WorkerOptions =
  wo_HasConn :: bool
  wo_HasExecutor :: bool
  wo_Identity :: Identity
  wo_SessionID :: string
  wo_MaxConcurrency :: u32
  wo_SupportedModes :: "RequestMode list"

datatype worker_error =
    errConnRequired
  | errExecutorRequired
  | SessionTokenError token_error

definition NewWorker :: "unicode_tables \<Rightarrow> WorkerOptions \<Rightarrow> worker_error + Worker" where
  "NewWorker uni opts =
     (if \<not> wo_HasConn opts then Inl errConnRequired
      else if \<not> wo_HasExecutor opts then Inl errExecutorRequired
      else (case ValidateSubjectToken uni (wo_SessionID opts) of
              Some err \<Rightarrow> Inl (SessionTokenError err)
            | None \<Rightarrow>
                (let modes = (if wo_SupportedModes opts = [] then [REQUEST_MODE_DECODED_HTTP]
                              else wo_SupportedModes opts)
                 in Inr \<lparr>wk_id = wo_Identity opts, wk_sessionID = wo_SessionID opts,
                         wk_maxConcurrency = wo_MaxConcurrency opts, wk_supportedModes = modes,
                         wk_active = 0, wk_draining = False, wk_cancels = []\<rparr>)))"

definition ActiveRequests :: "Worker \<Rightarrow> u32" where
  "ActiveRequests w = wk_active w"

definition SetDraining :: "bool \<Rightarrow> Worker \<Rightarrow> Worker" where
  "SetDraining d w = w\<lparr>wk_draining := d\<rparr>"

definition Draining :: "Worker \<Rightarrow> bool" where
  "Draining w = wk_draining w"

definition snapshotCapacity :: "Worker \<Rightarrow> Capacity" where
  "snapshotCapacity w =
     \<lparr>cap_Draining = wk_draining w, cap_ActiveRequests = wk_active w,
      cap_MaxConcurrency = wk_maxConcurrency w, cap_SupportedModes = wk_supportedModes w\<rparr>"

definition reserve :: "string \<Rightarrow> nat \<Rightarrow> Worker \<Rightarrow> Worker" where
  "reserve requestID cancel w =
     w\<lparr>wk_active := wk_active w + 1, wk_cancels := AList.update requestID cancel (wk_cancels w)\<rparr>"

definition release :: "string \<Rightarrow> Worker \<Rightarrow> Worker" where
  "release requestID w =
     w\<lparr>wk_active := wk_active w - 1, wk_cancels := AList.delete requestID (wk_cancels w)\<rparr>"

definition cancelsInFlight :: "Worker \<Rightarrow> nat list" where
  "cancelsInFlight w = map snd (wk_cancels w)"

datatype request_context = WithCancel | WithDeadline i64

definition requestContext :: "i64 \<Rightarrow> request_context" where
  "requestContext deadlineUnixMs = (if sint deadlineUnixMs \<le> 0 then WithCancel else WithDeadline deadlineUnixMs)"

section \<open>Replies and frames\<close>

definition ProtocolMajor :: u32 where
  "ProtocolMajor = 1"

definition replyEnvelope :: "Envelope option \<Rightarrow> AssignAckCode \<Rightarrow> Envelope" where
  "replyEnvelope env code =
     (let r = empty_envelope\<lparr>protocol_major := ProtocolMajor, env_payload := Some (Envelope_AssignAck code)\<rparr>
      in case env of
           None \<Rightarrow> r
         | Some e \<Rightarrow> r\<lparr>request_id := request_id e, deployment_id := deployment_id e, trace_id := trace_id e,
                       deadline_unix_ms := deadline_unix_ms e, env_attempt := env_attempt e\<rparr>)"

text \<open>The bytes the message is answered with, if any: an envelope that does not encode is dropped.\<close>

definition reply :: "marshaller \<Rightarrow> Envelope option \<Rightarrow> AssignAckCode \<Rightarrow> bytes option" where
  "reply marshal env code =
     (case MarshalEnvelope marshal (Some (replyEnvelope env code)) of Inl _ \<Rightarrow> None | Inr raw \<Rightarrow> Some raw)"

definition frameEnvelope :: "Envelope \<Rightarrow> StreamFrame \<Rightarrow> Envelope" where
  "frameEnvelope env frame =
     empty_envelope\<lparr>request_id := request_id env, deployment_id := deployment_id env, trace_id := trace_id env,
       deadline_unix_ms := deadline_unix_ms env, protocol_major := ProtocolMajor,
       env_attempt := env_attempt env, env_payload := Some (Envelope_StreamFrame frame)\<rparr>"

text \<open>
  \<open>publish\<close> stops at the first frame that does not encode or is not published; \<open>sends\<close> tells
  which bytes the connection takes on the subject. The result is what the connection took.
\<close>

fun publish :: "marshaller \<Rightarrow> (bytes \<Rightarrow> bool) \<Rightarrow> Envelope \<Rightarrow> StreamFrame list \<Rightarrow> bytes list" where
  "publish marshal sends env [] = []"
| "publish marshal sends env (frame # frames) =
     (case MarshalEnvelope marshal (Some (frameEnvelope env frame)) of
        Inl _ \<Rightarrow> []
      | Inr raw \<Rightarrow> (if sends raw then raw # publish marshal sends env frames else []))"

definition errorFrame :: "u32 \<Rightarrow> ErrorFrame \<Rightarrow> StreamFrame" where
  "errorFrame attempt err =
     \<lparr>stream_seq = 1, sf_attempt = attempt, sf_payload = Some (StreamFrame_Error err)\<rparr>"

end
