(* ===== verification/Decoded_Run.thy ===== *)
theory Decoded_Run
  imports Response_Stream Request_Body Worker_Base
begin

text \<open>
  One decoded request of \<open>egress/assignment.go\<close>, from \<open>runDecodedRequest\<close> on: the body is read, then
  the executor runs in a goroutine of its own (\<open>startDecodedExecution\<close>) while \<open>waitForResult\<close> reads
  frames. The two share the grants channel, the result channel and the context. Every step of
  either one is an event, so a list of events is an interleaving; what the executor sends and
  returns is free.
\<close>

section \<open>Before the execution\<close>

definition frameIdleTimeout :: int where
  "frameIdleTimeout = 15 * 1000000000"

definition unsupportedMode :: ErrorFrame where
  "unsupportedMode = \<lparr>ef_code = ERROR_CODE_UNSUPPORTED_INGRESS_MODE,
     ef_details = [(errorFactDetailKey, ''unsupported_request_mode'')]\<rparr>"

text \<open>
  \<open>runDecodedRequest\<close> until it publishes an error, hands over to the tunnel, or starts the executor.
\<close>

datatype decoded_start =
    StillReading
  | StoppedSilently
  | ErrorPublished "StreamFrame list"
  | TunnelStarted RequestStart streamValidator
  | ExecutionStarted RequestStart bytes streamValidator

text \<open>What it does with the result of \<open>readRequestBody\<close>.\<close>

definition afterBody ::
  "bool \<Rightarrow> AssignRequest \<Rightarrow> body_result \<times> requestBodyState \<times> streamValidator \<times> body_event list \<Rightarrow> decoded_start" where
  "afterBody hasTunnels req r =
     (case r of
        (BodyWaiting, s, v, _) \<Rightarrow> StillReading
      | (BodyStopped, s, v, _) \<Rightarrow> StoppedSilently
      | (BodyFailed failure, s, v, _) \<Rightarrow> ErrorPublished [errorFrame (ar_attempt req) failure]
      | (BodyReady start body, s, v, _) \<Rightarrow>
          (if rs_mode start \<noteq> REQUEST_MODE_DECODED_HTTP
           then (if rs_mode start = REQUEST_MODE_RAW_TUNNEL \<and> hasTunnels then TunnelStarted start v
                 else ErrorPublished [errorFrame (ar_attempt req) unsupportedMode])
           else ExecutionStarted start body v))"

definition runDecodedRequest ::
  "resolver option \<Rightarrow> bool \<Rightarrow> AssignRequest \<Rightarrow> Envelope \<Rightarrow> int \<Rightarrow> body_event list \<Rightarrow> decoded_start" where
  "runDecodedRequest bodyRefs hasTunnels req env now evs =
     (let validator = newStreamValidator (ar_attempt req) (initial_upload_credit_bytes req) frameIdleTimeout
                        (bodyRefs \<noteq> None) now
      in afterBody hasTunnels req
           (readRequestBody bodyRefs validator (expected_upload_bytes req) (deployment_id env) (request_id env) evs))"

section \<open>The executor and the main loop\<close>

text \<open>
  The main goroutine is in the select of \<open>waitForResult\<close>, blocked in \<open>grant\<close> on a full channel,
  waiting for the result after a cancel frame, or has published the result.
\<close>

datatype main_state =
    MainWaiting
  | MainGranting u64
  | MainCancelled string
  | MainDone

text \<open>
  The executor goroutine is in the executor's own code, in \<open>publishResponseData\<close> with an attempt, an
  offset and the remaining bytes, or has returned.
\<close>

datatype exec_state =
    ExecRunning
  | ExecSending u32 u64 bytes
  | ExecReturned

record decoded_state =
  ds_validator :: streamValidator
  ds_main :: main_state
  ds_exec :: exec_state
  ds_gate :: "responseCreditGate option"
  ds_grants :: "u64 list"
  ds_seq :: u64
  ds_ctxDone :: bool
  ds_resultCh :: "StreamFrame list option"
  ds_sent :: "StreamFrame list"
  ds_final :: "StreamFrame list option"

definition startDecodedExecution :: "AssignRequest \<Rightarrow> streamValidator \<Rightarrow> decoded_state" where
  "startDecodedExecution req v =
     \<lparr>ds_validator = v, ds_main = MainWaiting, ds_exec = ExecRunning,
      ds_gate = newResponseCreditGate (initial_download_credit_bytes req), ds_grants = [], ds_seq = 0,
      ds_ctxDone = False, ds_resultCh = None, ds_sent = [], ds_final = None\<rparr>"

datatype decoded_event =
    ExecSend StreamFrame
  | ExecChunk
  | ExecGrant
  | ExecGiveUp
  | ExecReturn "StreamFrame list"
  | MainFrame int "StreamFrame option"
  | MainGrantGoes
  | MainResult
  | CtxDeadline

text \<open>A call of \<open>send\<close>: a data frame starts \<open>publishResponseData\<close>, any other frame goes out at once.\<close>

definition execSend :: "StreamFrame \<Rightarrow> decoded_state \<Rightarrow> decoded_state" where
  "execSend frame s =
     (case GetData frame of
        Some d \<Rightarrow>
          (if df_data d = [] then s
           else s\<lparr>ds_exec := ExecSending (sf_attempt frame) (df_offset d) (df_data d)\<rparr>)
      | None \<Rightarrow> s\<lparr>ds_seq := ds_seq s + 1, ds_sent := ds_sent s @ [frame\<lparr>stream_seq := ds_seq s + 1\<rparr>]\<rparr>)"

text \<open>One round of the loop of \<open>publishResponseData\<close>, when \<open>takeAvailable\<close> need not wait.\<close>

definition execChunk :: "u32 \<Rightarrow> u64 \<Rightarrow> bytes \<Rightarrow> decoded_state \<Rightarrow> decoded_state option" where
  "execChunk attempt offset remaining s =
     (case takeAvailable (ds_gate s) (min (length remaining) responseFrameDataBytes) [] of
        (CreditReady, n, gate', _) \<Rightarrow>
          (let chunk = take n remaining; rest = drop n remaining
           in Some (s\<lparr>ds_gate := gate', ds_seq := ds_seq s + 1,
                     ds_sent := ds_sent s @ [data_frame (ds_seq s + 1) attempt offset chunk],
                     ds_exec := (if rest = [] then ExecRunning
                                 else ExecSending attempt (offset + ulen chunk) rest)\<rparr>))
      | _ \<Rightarrow> None)"

text \<open>The body of the loop of \<open>waitForResult\<close> for a frame.\<close>

definition mainFrame :: "int \<Rightarrow> StreamFrame option \<Rightarrow> decoded_state \<Rightarrow> decoded_state" where
  "mainFrame now frame s =
     (case accept now (ds_validator s) frame of
        (outcome, v') \<Rightarrow>
          (let s' = s\<lparr>ds_validator := v'\<rparr>
           in if outcome \<noteq> frameAccepted then s'
              else (case Option.bind frame sf_payload of
                      Some (StreamFrame_Credit credit) \<Rightarrow>
                        (case grant (ds_gate s) (download_credit_bytes credit) (ds_grants s) of
                           Some q \<Rightarrow> s'\<lparr>ds_grants := q\<rparr>
                         | None \<Rightarrow> s'\<lparr>ds_main := MainGranting (download_credit_bytes credit)\<rparr>)
                    | Some (StreamFrame_Cancel reason) \<Rightarrow>
                        s'\<lparr>ds_main := MainCancelled reason, ds_ctxDone := True\<rparr>
                    | _ \<Rightarrow> s')))"

text \<open>What is published when the result is received.\<close>

definition finalFrames :: "main_state \<Rightarrow> StreamFrame list \<Rightarrow> StreamFrame list" where
  "finalFrames m result = (case m of MainCancelled reason \<Rightarrow> applyCancellation result reason | _ \<Rightarrow> result)"

fun decoded_step :: "decoded_event \<Rightarrow> decoded_state \<Rightarrow> decoded_state option" where
  "decoded_step (ExecSend frame) s = (if ds_exec s = ExecRunning then Some (execSend frame s) else None)"
| "decoded_step ExecChunk s =
     (case ds_exec s of ExecSending a off ds \<Rightarrow> execChunk a off ds s | _ \<Rightarrow> None)"
| "decoded_step ExecGrant s =
     (case (ds_exec s, ds_gate s, ds_grants s) of
        (ExecSending a off ds, Some g, b # q) \<Rightarrow>
          (if gate_credit g = 0
           then Some (s\<lparr>ds_gate := Some (g\<lparr>gate_credit := gate_credit g + b\<rparr>), ds_grants := q\<rparr>) else None)
      | _ \<Rightarrow> None)"
| "decoded_step ExecGiveUp s =
     (case (ds_exec s, ds_gate s) of
        (ExecSending a off ds, Some g) \<Rightarrow>
          (if gate_credit g = 0 \<and> ds_ctxDone s then Some (s\<lparr>ds_exec := ExecRunning\<rparr>) else None)
      | _ \<Rightarrow> None)"
| "decoded_step (ExecReturn frames) s =
     (if ds_exec s = ExecRunning then Some (s\<lparr>ds_exec := ExecReturned, ds_resultCh := Some frames\<rparr>) else None)"
| "decoded_step (MainFrame now frame) s = (if ds_main s = MainWaiting then Some (mainFrame now frame s) else None)"
| "decoded_step MainGrantGoes s =
     (case ds_main s of
        MainGranting b \<Rightarrow>
          (case grant (ds_gate s) b (ds_grants s) of
             Some q \<Rightarrow> Some (s\<lparr>ds_grants := q, ds_main := MainWaiting\<rparr>) | None \<Rightarrow> None)
      | _ \<Rightarrow> None)"
| "decoded_step MainResult s =
     (case (ds_main s, ds_resultCh s) of
        (MainWaiting, Some r) \<Rightarrow> Some (s\<lparr>ds_main := MainDone, ds_resultCh := None, ds_final := Some (finalFrames MainWaiting r)\<rparr>)
      | (MainCancelled reason, Some r) \<Rightarrow>
          Some (s\<lparr>ds_main := MainDone, ds_resultCh := None, ds_final := Some (finalFrames (MainCancelled reason) r)\<rparr>)
      | _ \<Rightarrow> None)"
| "decoded_step CtxDeadline s = Some (s\<lparr>ds_ctxDone := True\<rparr>)"

abbreviation decoded_run :: "decoded_event list \<Rightarrow> decoded_state \<Rightarrow> decoded_state option" where
  "decoded_run \<equiv> run_steps decoded_step"

end
