(* ===== verification/Tunnel.thy ===== *)
theory Tunnel
  imports Decoded_Run
begin

text \<open>
  The raw tunnel of \<open>egress/assignment.go\<close>: \<open>runRawTunnel\<close>, the loop \<open>run\<close> with its handlers, the
  download goroutine \<open>streamTunnelDownload\<close>, and the frame builder both share. The builder numbers a
  frame under its lock; publishing it is a later step, outside the lock, as in the code. A list of
  events is an interleaving of the two goroutines with what arrives from the network.
\<close>

section \<open>The frame builder\<close>

record TunnelTarget =
  tt_Host :: string
  tt_Port :: u32

record tunnelFrameBuilder =
  bd_attempt :: u32
  bd_seq :: u64

definition newTunnelFrameBuilder :: "u32 \<Rightarrow> tunnelFrameBuilder" where
  "newTunnelFrameBuilder attempt = \<lparr>bd_attempt = attempt, bd_seq = 0\<rparr>"

definition next_frame :: "Payload \<Rightarrow> tunnelFrameBuilder \<Rightarrow> StreamFrame \<times> tunnelFrameBuilder" where
  "next_frame p b =
     (let b' = b\<lparr>bd_seq := bd_seq b + 1\<rparr>
      in (\<lparr>stream_seq = bd_seq b', sf_attempt = bd_attempt b', sf_payload = Some p\<rparr>, b'))"

definition outboundStart :: "i64 \<Rightarrow> TunnelTarget \<Rightarrow> tunnelFrameBuilder \<Rightarrow> StreamFrame \<times> tunnelFrameBuilder" where
  "outboundStart now target b = next_frame (StreamFrame_OutboundStart
     \<lparr>target_host = tt_Host target, target_port = tt_Port target, os_attempt = bd_attempt b,
      worker_timestamp_ms = now\<rparr>) b"

definition rawTunnelEstablished :: u32 where
  "rawTunnelEstablished = 200"

definition responseStart :: "tunnelFrameBuilder \<Rightarrow> StreamFrame \<times> tunnelFrameBuilder" where
  "responseStart b = next_frame (StreamFrame_ResponseStart rawTunnelEstablished) b"

definition build_data :: "u64 \<Rightarrow> bytes \<Rightarrow> tunnelFrameBuilder \<Rightarrow> StreamFrame \<times> tunnelFrameBuilder" where
  "build_data offset bs b = next_frame (StreamFrame_Data \<lparr>df_offset = offset, df_data = bs\<rparr>) b"

definition uploadCredit :: "u64 \<Rightarrow> tunnelFrameBuilder \<Rightarrow> StreamFrame \<times> tunnelFrameBuilder" where
  "uploadCredit n b = next_frame (StreamFrame_Credit \<lparr>upload_credit_bytes = n, download_credit_bytes = 0\<rparr>) b"

definition cancelled :: "string \<Rightarrow> tunnelFrameBuilder \<Rightarrow> StreamFrame \<times> tunnelFrameBuilder" where
  "cancelled reason b = next_frame (StreamFrame_Cancelled reason) b"

definition build_end :: "tunnelFrameBuilder \<Rightarrow> StreamFrame \<times> tunnelFrameBuilder" where
  "build_end b = next_frame (StreamFrame_End True) b"

definition build_error :: "ErrorFrame \<Rightarrow> tunnelFrameBuilder \<Rightarrow> StreamFrame \<times> tunnelFrameBuilder" where
  "build_error err b = next_frame (StreamFrame_Error err) b"

lemmas builder_defs = outboundStart_def responseStart_def build_data_def uploadCredit_def cancelled_def
  build_end_def build_error_def

section \<open>State\<close>

text \<open>Errors of the connection, as far as \<open>handleDone\<close> tells them apart.\<close>

datatype conn_error = IoEOF | NetErrClosed | CtxErr | OtherConnError string

text \<open>
  The loop \<open>run\<close> is in its select, has a numbered frame to publish (and then returns or not), is
  blocked in \<open>grant\<close>, or has returned.
\<close>

datatype tunnel_main =
    TunnelSelect
  | TunnelPublish StreamFrame bool
  | TunnelGranting u64
  | TunnelReturned

text \<open>
  The download goroutine reads, sends the rest of a read (with the error of that read, if any), has
  a numbered frame to publish, or has ended.
\<close>

datatype tunnel_download =
    DownReading u64
  | DownSending u64 bytes "conn_error option"
  | DownPublish StreamFrame u64 bytes "conn_error option"
  | DownEnded

record tunnel_state =
  tn_builder :: tunnelFrameBuilder
  tn_validator :: streamValidator
  tn_gate :: "responseCreditGate option"
  tn_grants :: "u64 list"
  tn_main :: tunnel_main
  tn_down :: tunnel_download
  tn_done :: "conn_error option"
  tn_ctxDone :: bool
  tn_written :: bytes
  tn_published :: "StreamFrame list"

text \<open>\<open>runRawTunnel\<close> until the loop starts: with a failure the two frames published, else the state.\<close>

definition runRawTunnel ::
  "AssignRequest \<Rightarrow> streamValidator \<Rightarrow> i64 \<Rightarrow> TunnelTarget \<Rightarrow> ErrorFrame option \<Rightarrow> StreamFrame list + tunnel_state" where
  "runRawTunnel req v now target failure =
     (let b0 = newTunnelFrameBuilder (ar_attempt req);
          (f1, b1) = outboundStart now target b0
      in case failure of
           Some err \<Rightarrow> Inl [f1, fst (build_error err b1)]
         | None \<Rightarrow>
             (let (f2, b2) = responseStart b1
              in Inr \<lparr>tn_builder = b2, tn_validator = v,
                     tn_gate = newResponseCreditGate (initial_download_credit_bytes req), tn_grants = [],
                     tn_main = TunnelSelect, tn_down = DownReading 0, tn_done = None, tn_ctxDone = False,
                     tn_written = [], tn_published = [f1, f2]\<rparr>))"

section \<open>The loop\<close>

text \<open>A handler numbers a frame to publish; after it the loop returns or goes on.\<close>

definition publish_then ::
  "bool \<Rightarrow> (tunnelFrameBuilder \<Rightarrow> StreamFrame \<times> tunnelFrameBuilder) \<Rightarrow> tunnel_state \<Rightarrow> tunnel_state" where
  "publish_then stop build s =
     (case build (tn_builder s) of (f, b) \<Rightarrow> s\<lparr>tn_builder := b, tn_main := TunnelPublish f stop\<rparr>)"

definition fact_error :: "ErrorCode \<Rightarrow> string \<Rightarrow> ErrorFrame" where
  "fact_error code msg = \<lparr>ef_code = code, ef_details = [(errorFactDetailKey, msg)]\<rparr>"

definition handleDone :: "conn_error \<Rightarrow> tunnel_state \<Rightarrow> tunnel_state" where
  "handleDone err s =
     (if err \<noteq> IoEOF \<and> err \<noteq> NetErrClosed
      then publish_then True (build_error (fact_error ERROR_CODE_UPSTREAM_RESET ''upstream_reset_before_headers'')) s
      else publish_then True build_end s)"

definition handleCtxDone :: "tunnel_state \<Rightarrow> tunnel_state" where
  "handleCtxDone s =
     publish_then True (build_error (fact_error ERROR_CODE_TIMEOUT_EXCEEDED ''request_cancelled'')) s"

text \<open>\<open>conn.Write\<close> takes all bytes, or fails with a message after some of them.\<close>

datatype write_result = WriteOk | WriteFailed nat string

definition handleData :: "write_result \<Rightarrow> DataFrame \<Rightarrow> tunnel_state \<Rightarrow> tunnel_state" where
  "handleData w d s =
     (case w of
        WriteOk \<Rightarrow>
          publish_then False (uploadCredit (uint64FromInt (int (length (df_data d)))))
            (s\<lparr>tn_written := tn_written s @ df_data d\<rparr>)
      | WriteFailed n msg \<Rightarrow>
          publish_then True (build_error (fact_error ERROR_CODE_UPSTREAM_RESET msg))
            (s\<lparr>tn_written := tn_written s @ take n (df_data d)\<rparr>))"

definition handleFrame :: "int \<Rightarrow> StreamFrame option \<Rightarrow> write_result \<Rightarrow> tunnel_state \<Rightarrow> tunnel_state" where
  "handleFrame now frame w s =
     (case accept now (tn_validator s) frame of
        (outcome, v') \<Rightarrow>
          (let s' = s\<lparr>tn_validator := v'\<rparr>
           in if outcome \<noteq> frameAccepted then s'
              else (case Option.bind frame sf_payload of
                      Some (StreamFrame_Data d) \<Rightarrow> handleData w d s'
                    | Some (StreamFrame_Credit credit) \<Rightarrow>
                        (case grant (tn_gate s) (download_credit_bytes credit) (tn_grants s) of
                           Some q \<Rightarrow> s'\<lparr>tn_grants := q\<rparr>
                         | None \<Rightarrow> s'\<lparr>tn_main := TunnelGranting (download_credit_bytes credit)\<rparr>)
                    | Some (StreamFrame_Cancel reason) \<Rightarrow> publish_then True (cancelled reason) s'
                    | _ \<Rightarrow> s')))"

section \<open>The download goroutine\<close>

text \<open>After a read or a chunk: the next chunk, the report of the error, or the next read.\<close>

definition downNext :: "u64 \<Rightarrow> bytes \<Rightarrow> conn_error option \<Rightarrow> tunnel_state \<Rightarrow> tunnel_state" where
  "downNext offset remaining err s =
     (if remaining \<noteq> [] then s\<lparr>tn_down := DownSending offset remaining err\<rparr>
      else (case err of
              Some e \<Rightarrow> s\<lparr>tn_done := Some e, tn_down := DownEnded\<rparr>
            | None \<Rightarrow> s\<lparr>tn_down := DownReading offset\<rparr>))"

definition downTake :: "u64 \<Rightarrow> bytes \<Rightarrow> conn_error option \<Rightarrow> tunnel_state \<Rightarrow> tunnel_state option" where
  "downTake offset remaining err s =
     (case takeAvailable (tn_gate s) (length remaining) [] of
        (CreditReady, taken, gate', _) \<Rightarrow>
          (case build_data offset (take taken remaining) (tn_builder s) of
             (f, b) \<Rightarrow> Some (s\<lparr>tn_gate := gate', tn_builder := b,
                              tn_down := DownPublish f (offset + uint64FromInt (int taken))
                                           (drop taken remaining) err\<rparr>))
      | _ \<Rightarrow> None)"

section \<open>Steps\<close>

datatype tunnel_event =
    TnRead bytes "conn_error option"
  | TnTake
  | TnReceive
  | TnGiveUp
  | TnDownPublish
  | TnDone
  | TnCtxDone
  | TnTick int
  | TnFrame int "StreamFrame option" write_result
  | TnPublish
  | TnGrantGoes
  | TnCancelCtx

fun tunnel_step :: "tunnel_event \<Rightarrow> tunnel_state \<Rightarrow> tunnel_state option" where
  "tunnel_step (TnRead bs err) s =
     (case tn_down s of
        DownReading offset \<Rightarrow>
          (if length bs \<le> responseFrameDataBytes then Some (downNext offset bs err s) else None)
      | _ \<Rightarrow> None)"
| "tunnel_step TnTake s =
     (case tn_down s of DownSending offset remaining err \<Rightarrow> downTake offset remaining err s | _ \<Rightarrow> None)"
| "tunnel_step TnReceive s =
     (case (tn_down s, tn_gate s, tn_grants s) of
        (DownSending offset remaining err, Some g, b # q) \<Rightarrow>
          (if gate_credit g = 0
           then Some (s\<lparr>tn_gate := Some (g\<lparr>gate_credit := gate_credit g + b\<rparr>), tn_grants := q\<rparr>) else None)
      | _ \<Rightarrow> None)"
| "tunnel_step TnGiveUp s =
     (case (tn_down s, tn_gate s) of
        (DownSending offset remaining err, Some g) \<Rightarrow>
          (if gate_credit g = 0 \<and> tn_ctxDone s
           then Some (s\<lparr>tn_done := Some CtxErr, tn_down := DownEnded\<rparr>) else None)
      | _ \<Rightarrow> None)"
| "tunnel_step TnDownPublish s =
     (case tn_down s of
        DownPublish f offset remaining err \<Rightarrow>
          Some (downNext offset remaining err (s\<lparr>tn_published := tn_published s @ [f]\<rparr>))
      | _ \<Rightarrow> None)"
| "tunnel_step TnDone s =
     (case (tn_main s, tn_done s) of
        (TunnelSelect, Some err) \<Rightarrow> Some (handleDone err (s\<lparr>tn_done := None\<rparr>)) | _ \<Rightarrow> None)"
| "tunnel_step TnCtxDone s =
     (if tn_main s = TunnelSelect \<and> tn_ctxDone s then Some (handleCtxDone s) else None)"
| "tunnel_step (TnTick now) s =
     (if tn_main s = TunnelSelect
      then Some (if idleExpired now (tn_validator s) then s\<lparr>tn_main := TunnelReturned\<rparr> else s) else None)"
| "tunnel_step (TnFrame now frame w) s =
     (if tn_main s = TunnelSelect then Some (handleFrame now frame w s) else None)"
| "tunnel_step TnPublish s =
     (case tn_main s of
        TunnelPublish f stop \<Rightarrow>
          Some (s\<lparr>tn_published := tn_published s @ [f], tn_main := (if stop then TunnelReturned else TunnelSelect)\<rparr>)
      | _ \<Rightarrow> None)"
| "tunnel_step TnGrantGoes s =
     (case tn_main s of
        TunnelGranting b \<Rightarrow>
          (case grant (tn_gate s) b (tn_grants s) of
             Some q \<Rightarrow> Some (s\<lparr>tn_grants := q, tn_main := TunnelSelect\<rparr>) | None \<Rightarrow> None)
      | _ \<Rightarrow> None)"
| "tunnel_step TnCancelCtx s = Some (s\<lparr>tn_ctxDone := True\<rparr>)"

abbreviation tunnel_run :: "tunnel_event list \<Rightarrow> tunnel_state \<Rightarrow> tunnel_state option" where
  "tunnel_run \<equiv> run_steps tunnel_step"

end
