(* ===== verification/Request_Step.thy ===== *)
theory Request_Step
  imports Tunnel
begin

text \<open>
  The goroutine of an accepted request (\<open>egress/assignment.go\<close>, \<open>runDecodedRequest\<close> and what it
  calls) as a state machine: where the goroutine is, and what its next step does. The body reader
  takes one event at a time; the execution and the tunnel are the step functions of \<open>Decoded_Run\<close>
  and \<open>Tunnel\<close>. The worker interleaves these steps of all its requests.
\<close>

section \<open>Phases\<close>

text \<open>What of the worker a request uses and no step changes: its resolver and whether it has a tunnel opener.\<close>

record request_env =
  rq_bodyRefs :: "resolver option"
  rq_hasTunnels :: bool

text \<open>
  The goroutine has not run yet, reads the body, waits for \<open>OpenTunnel\<close>, is in an execution or a
  tunnel, or has returned, after publishing the frames given.
\<close>

datatype request_phase =
    Starting
  | Reading requestBodyState streamValidator
  | Opening RequestStart streamValidator
  | Executing decoded_state
  | Tunnelling tunnel_state
  | Ended "StreamFrame list"

text \<open>
  Whether \<open>runDecodedRequest\<close> has returned: after an execution it has when the result is published,
  after a tunnel when its loop has returned.
\<close>

fun request_ended :: "request_phase \<Rightarrow> bool" where
  "request_ended (Ended fs) = True"
| "request_ended (Executing d) = (ds_main d = MainDone)"
| "request_ended (Tunnelling t) = (tn_main t = TunnelReturned)"
| "request_ended p = False"

datatype request_event =
    RqBegin int
  | RqBody body_event
  | RqOpened i64 TunnelTarget "ErrorFrame option"
  | RqExec decoded_event
  | RqTunnel tunnel_event

section \<open>Steps\<close>

text \<open>What a start leads to.\<close>

fun enter :: "AssignRequest \<Rightarrow> requestBodyState \<Rightarrow> streamValidator \<Rightarrow> decoded_start \<Rightarrow> request_phase" where
  "enter req s v StillReading = Reading s v"
| "enter req s v StoppedSilently = Ended []"
| "enter req s v (ErrorPublished fs) = Ended fs"
| "enter req s v (TunnelStarted start w) = Opening start w"
| "enter req s v (ExecutionStarted start body w) = Executing (startDecodedExecution req w)"

definition readStep ::
  "request_env \<Rightarrow> AssignRequest \<Rightarrow> requestBodyState \<Rightarrow> streamValidator \<Rightarrow> body_event \<Rightarrow> request_phase" where
  "readStep R req s v e =
     (case readBodyLoop s v [e] of
        (r, s', v', rest) \<Rightarrow> enter req s' v' (afterBody (rq_hasTunnels R) req (r, s', v', rest)))"

text \<open>
  One step, or \<open>None\<close> when it is not enabled. The context of the request ends from outside, by its
  deadline or by \<open>abandonInFlight\<close>, only when \<open>ctxEnds\<close> says so, and only once.
\<close>

fun request_step ::
  "request_env \<Rightarrow> bool \<Rightarrow> AssignRequest \<Rightarrow> Envelope \<Rightarrow> request_event \<Rightarrow> request_phase \<Rightarrow> request_phase option" where
  "request_step R ctxEnds req env (RqBegin now) p =
     (case p of
        Starting \<Rightarrow>
          Some (Reading
            (newRequestBodyState (expected_upload_bytes req) (deployment_id env) (request_id env) (rq_bodyRefs R))
            (newStreamValidator (ar_attempt req) (initial_upload_credit_bytes req) frameIdleTimeout
               (rq_bodyRefs R \<noteq> None) now))
      | _ \<Rightarrow> None)"
| "request_step R ctxEnds req env (RqBody e) p =
     (case p of
        Reading s v \<Rightarrow> (if e = BodyCtxDone \<and> \<not> ctxEnds then None else Some (readStep R req s v e))
      | _ \<Rightarrow> None)"
| "request_step R ctxEnds req env (RqOpened now target failure) p =
     (case p of
        Opening start v \<Rightarrow>
          Some (case runRawTunnel req v now target failure of Inl fs \<Rightarrow> Ended fs | Inr t \<Rightarrow> Tunnelling t)
      | _ \<Rightarrow> None)"
| "request_step R ctxEnds req env (RqExec e) p =
     (case p of
        Executing d \<Rightarrow>
          (if e = CtxDeadline \<and> (\<not> ctxEnds \<or> ds_ctxDone d) then None
           else map_option Executing (decoded_step e d))
      | _ \<Rightarrow> None)"
| "request_step R ctxEnds req env (RqTunnel e) p =
     (case p of
        Tunnelling t \<Rightarrow>
          (if e = TnCancelCtx \<and> (\<not> ctxEnds \<or> tn_ctxDone t) then None
           else map_option Tunnelling (tunnel_step e t))
      | _ \<Rightarrow> None)"

abbreviation request_run ::
  "request_env \<Rightarrow> bool \<Rightarrow> AssignRequest \<Rightarrow> Envelope \<Rightarrow> request_event list \<Rightarrow> request_phase \<Rightarrow> request_phase option" where
  "request_run R ctxEnds req env \<equiv> run_steps (request_step R ctxEnds req env)"

section \<open>The reader event by event\<close>

text \<open>
  Feeding the loop one event at a time is the loop on the list of events.
\<close>

lemma readBodyLoop_step:
  assumes "\<not> complete s" and "readBodyLoop s v [e] = (r, s', v', [])"
  shows "readBodyLoop s v (e # es) =
    (if r = BodyWaiting then readBodyLoop s' v' es else (r, s', v', es))
    \<and> (r = BodyWaiting \<longrightarrow> \<not> complete s')"
proof (cases "complete s'")
  case False
  then show ?thesis using assms
    by (cases e) (auto simp: bodyStop_def split: prod.splits if_splits option.splits)
next
  case True
  then show ?thesis using assms by (cases e; cases es) (auto simp: bodyStop_def split: prod.splits if_splits option.splits)
qed

lemma readBodyLoop_single: "\<not> complete s \<Longrightarrow> snd (snd (snd (readBodyLoop s v [e]))) = []"
  by (cases e) (auto split: prod.splits)

text \<open>
  So a request that has been given the events of a read is where \<open>runDecodedRequest\<close> says: as long
  as the read takes all of them, the goroutine is in the phase its outcome leads to.
\<close>

lemma reading_run:
  assumes "\<not> complete s" and "readBodyLoop s v evs = (r, s', v', [])"
  shows "evs = [] \<and> r = BodyWaiting \<and> s' = s \<and> v' = v
    \<or> (\<exists>pre e. evs = pre @ [e] \<and> request_run R True req env (map RqBody evs) (Reading s v)
         = Some (enter req s' v' (afterBody (rq_hasTunnels R) req (r, s', v', []))))"
  using assms
proof (induction evs arbitrary: s v)
  case Nil
  then show ?case by simp
next
  case (Cons e es)
  obtain r1 s1 v1 where one: "readBodyLoop s v [e] = (r1, s1, v1, [])"
    using readBodyLoop_single [OF Cons.prems(1), of v e] by (metis prod.collapse)
  note step = readBodyLoop_step [OF Cons.prems(1) one, of es]
  have next_phase: "request_step R True req env (RqBody e) (Reading s v)
      = Some (enter req s1 v1 (afterBody (rq_hasTunnels R) req (r1, s1, v1, [])))"
    by (simp add: readStep_def one del: readBodyLoop.simps)
  show ?case
  proof (cases "r1 = BodyWaiting")
    case True
    then have go: "readBodyLoop s1 v1 es = (r, s', v', [])" and inc: "\<not> complete s1"
      using step Cons.prems(2) by simp_all
    have here: "request_step R True req env (RqBody e) (Reading s v) = Some (Reading s1 v1)"
      unfolding next_phase by (simp add: True afterBody_def)
    show ?thesis
    proof (cases es rule: rev_cases)
      case Nil
      then show ?thesis using go inc next_phase True by (intro disjI2 exI [of _ "[]"] exI [of _ e]) simp
    next
      case (snoc pre l)
      then show ?thesis using Cons.IH [OF inc go] here
        by (intro disjI2 exI [of _ "e # pre"] exI [of _ l]) (simp del: request_step.simps)
    qed
  next
    case False
    then have "es = []" "r = r1" "s' = s1" "v' = v1" using step Cons.prems(2) by simp_all
    then show ?thesis using next_phase by (intro disjI2 exI [of _ "[]"] exI [of _ e]) simp
  qed
qed

lemma request_run_is_runDecodedRequest:
  assumes "readRequestBody (rq_bodyRefs R)
      (newStreamValidator (ar_attempt req) (initial_upload_credit_bytes req) frameIdleTimeout (rq_bodyRefs R \<noteq> None) now)
      (expected_upload_bytes req) (deployment_id env) (request_id env) evs = (r, s, v, [])"
  shows "request_run R True req env (RqBegin now # map RqBody evs) Starting
    = Some (enter req s v (runDecodedRequest (rq_bodyRefs R) (rq_hasTunnels R) req env now evs))"
proof -
  let ?s = "newRequestBodyState (expected_upload_bytes req) (deployment_id env) (request_id env) (rq_bodyRefs R)"
  let ?v = "newStreamValidator (ar_attempt req) (initial_upload_credit_bytes req) frameIdleTimeout (rq_bodyRefs R \<noteq> None) now"
  have inc: "\<not> complete ?s" by (simp add: complete_def newRequestBodyState_def)
  have run: "readBodyLoop ?s ?v evs = (r, s, v, [])" using assms by (simp add: readRequestBody_def)
  have "runDecodedRequest (rq_bodyRefs R) (rq_hasTunnels R) req env now evs
      = afterBody (rq_hasTunnels R) req (r, s, v, [])"
    unfolding runDecodedRequest_def Let_def assms ..
  moreover have "request_run R True req env (map RqBody evs) (Reading ?s ?v)
      = Some (enter req s v (afterBody (rq_hasTunnels R) req (r, s, v, [])))"
    using reading_run [OF inc run, of R req env] by (auto simp: afterBody_def)
  ultimately show ?thesis by simp
qed

end
