(* ===== verification/Worker.thy ===== *)
theory Worker
  imports Request_Step
begin

text \<open>
  The \<open>Worker\<close> of \<open>egress/assignment.go\<close> at work: the assignment handler, the goroutines of the
  requests it accepts, \<open>Serve\<close> and \<open>abandonInFlight\<close>. The handler is cut where other goroutines can
  run between two of its steps; a step relation interleaves these steps with the steps of the
  requests in flight, \<open>SetDraining\<close> and the shutdown, and \<open>handleAssign\<close> is the composition of the
  handler's steps. Messages of one subscription are delivered one at a time, as the NATS client
  documents.
\<close>

section \<open>The assignment handler\<close>

text \<open>
  What the worker does to its surroundings, in order. Subscriptions and contexts are numbered; a
  reply records the arguments of the call to \<open>reply\<close>.
\<close>

datatype worker_action =
    ActSubscribe nat string
  | ActFlush
  | ActUnsubscribe nat
  | ActReply "Envelope option" AssignAckCode
  | ActCancel nat

text \<open>
  The handler has no message, has been delivered one, has decided to admit it, has its stream
  subscription, or has counted the request.
\<close>

datatype handler_state =
    HandlerIdle
  | HandlerDelivered bytes
  | HandlerAdmitted Envelope
  | HandlerPrepared Envelope nat
  | HandlerReserved Envelope nat

datatype serve_state = Serving | Stopping | Unsubscribed | Abandoned | Returned

record assignment =
  as_number :: nat
  as_env :: Envelope
  as_context :: request_context
  as_run :: request_phase

record worker_state =
  ws_worker :: Worker
  ws_next :: nat
  ws_handler :: handler_state
  ws_running :: "assignment list"
  ws_closing :: "nat list"
  ws_serve :: serve_state
  ws_log :: "worker_action list"

text \<open>
  What the worker is linked with: the Unicode tables, the decoder, \<open>AssignRequest.Validate\<close>; and its
  fields that only the requests use.
\<close>

record worker_env =
  we_tables :: unicode_tables
  we_unmarshal :: unmarshaller
  we_valid :: "AssignRequest \<Rightarrow> bool"
  we_requests :: request_env

text \<open>The getters of a nil \<open>AssignRequest\<close> return zero values.\<close>

definition assignRequest :: "Envelope \<Rightarrow> AssignRequest" where
  "assignRequest env =
     (case GetAssignRequest env of
        Some req \<Rightarrow> req
      | None \<Rightarrow> \<lparr>ar_mode = REQUEST_MODE_other 0, ar_attempt = 0, ar_deadline_unix_ms = 0, expected_upload_bytes = 0,
                 initial_upload_credit_bytes = 0, initial_download_credit_bytes = 0\<rparr>)"

definition act :: "worker_action list \<Rightarrow> worker_state \<Rightarrow> worker_state" where
  "act as s = s\<lparr>ws_log := ws_log s @ as\<rparr>"

text \<open>
  \<open>prepareRequestStream\<close> with the outcomes of \<open>Subscribe\<close> and \<open>Flush\<close>: the actions, and the subject
  to publish on when it succeeds. The new subscription is number \<open>n\<close>.
\<close>

definition prepareRequestStream ::
  "worker_env \<Rightarrow> Worker \<Rightarrow> nat \<Rightarrow> bool \<Rightarrow> bool \<Rightarrow> Envelope \<Rightarrow> worker_action list \<times> string option" where
  "prepareRequestStream E w n subOk flushOk env =
     (case StreamSubject (we_tables E) (request_id env) (id_WorkerID (wk_id w)) (wk_sessionID w)
             DirectionControlToExecutor of
        Inl _ \<Rightarrow> ([], None)
      | Inr c2eSubject \<Rightarrow>
          (case StreamSubject (we_tables E) (request_id env) (id_WorkerID (wk_id w)) (wk_sessionID w)
                  DirectionExecutorToControl of
             Inl _ \<Rightarrow> ([], None)
           | Inr e2cSubject \<Rightarrow>
               (if \<not> subOk then ([], None)
                else if \<not> flushOk then ([ActSubscribe n c2eSubject, ActFlush, ActUnsubscribe n], None)
                else ([ActSubscribe n c2eSubject, ActFlush], Some e2cSubject))))"

text \<open>The handler of a message up to the decision, \<open>prepareRequestStream\<close>, \<open>reserve\<close>, and the rest.\<close>

definition admit :: "worker_env \<Rightarrow> bytes \<Rightarrow> worker_state \<Rightarrow> worker_state" where
  "admit E raw s =
     (case UnmarshalEnvelope (we_unmarshal E) raw of
        Inl _ \<Rightarrow> act [ActReply None ASSIGN_ACK_REJECTED_ERROR] s
      | Inr env \<Rightarrow>
          (let code = EvaluateAssignment (we_valid E) (GetAssignRequest env) (snapshotCapacity (ws_worker s))
           in if code \<noteq> ASSIGN_ACK_ACCEPTED then act [ActReply (Some env) code] s
              else s\<lparr>ws_handler := HandlerAdmitted env\<rparr>))"

definition admitStep :: "worker_env \<Rightarrow> worker_state \<Rightarrow> worker_state" where
  "admitStep E s =
     (case ws_handler s of
        HandlerDelivered raw \<Rightarrow> admit E raw (s\<lparr>ws_handler := HandlerIdle\<rparr>)
      | _ \<Rightarrow> s)"

definition prepareStep :: "worker_env \<Rightarrow> bool \<Rightarrow> bool \<Rightarrow> worker_state \<Rightarrow> worker_state" where
  "prepareStep E subOk flushOk s =
     (case ws_handler s of
        HandlerAdmitted env \<Rightarrow>
          (case prepareRequestStream E (ws_worker s) (ws_next s) subOk flushOk env of
             (as, None) \<Rightarrow>
               act (as @ [ActReply (Some env) ASSIGN_ACK_REJECTED_ERROR])
                 (s\<lparr>ws_handler := HandlerIdle, ws_next := Suc (ws_next s)\<rparr>)
           | (as, Some e2cSubject) \<Rightarrow>
               act as (s\<lparr>ws_handler := HandlerPrepared env (ws_next s), ws_next := Suc (ws_next s)\<rparr>))
      | _ \<Rightarrow> s)"

definition reserveStep :: "worker_state \<Rightarrow> worker_state" where
  "reserveStep s =
     (case ws_handler s of
        HandlerPrepared env n \<Rightarrow>
          s\<lparr>ws_worker := reserve (request_id env) n (ws_worker s), ws_handler := HandlerReserved env n\<rparr>
      | _ \<Rightarrow> s)"

definition startStep :: "worker_state \<Rightarrow> worker_state" where
  "startStep s =
     (case ws_handler s of
        HandlerReserved env n \<Rightarrow>
          act [ActReply (Some env) ASSIGN_ACK_ACCEPTED]
            (s\<lparr>ws_handler := HandlerIdle,
               ws_running := ws_running s @
                 [\<lparr>as_number = n, as_env = env, as_context = requestContext (deadline_unix_ms env),
                   as_run = Starting\<rparr>]\<rparr>)
      | _ \<Rightarrow> s)"

definition handleAssign :: "worker_env \<Rightarrow> bytes \<Rightarrow> bool \<Rightarrow> bool \<Rightarrow> worker_state \<Rightarrow> worker_state" where
  "handleAssign E raw subOk flushOk s = startStep (reserveStep (prepareStep E subOk flushOk (admit E raw s)))"

section \<open>Everything that can happen to a worker\<close>

datatype worker_event =
    EvAssign bytes
  | EvAdmit
  | EvPrepare bool bool
  | EvReserve
  | EvStart
  | EvRun nat request_event
  | EvFinish nat
  | EvClose nat
  | EvSetDraining bool
  | EvStop
  | EvUnsubscribe
  | EvAbandon
  | EvReturn

definition remove_at :: "nat \<Rightarrow> 'a list \<Rightarrow> 'a list" where
  "remove_at i xs = take i xs @ drop (Suc i) xs"

text \<open>
  Whether the context of a request may end from outside: it has a deadline, or \<open>abandonInFlight\<close> has
  called its cancel function.
\<close>

definition ctxEnds :: "worker_state \<Rightarrow> assignment \<Rightarrow> bool" where
  "ctxEnds s a \<longleftrightarrow> as_context a \<noteq> WithCancel \<or> ActCancel (as_number a) \<in> set (ws_log s)"

text \<open>
  One step, or \<open>None\<close> when it is not enabled. \<open>EvAssign\<close> delivers a message to the callback, as long as
  \<open>Serve\<close> has not unsubscribed; the callback decides later, in \<open>EvAdmit\<close>. \<open>EvRun\<close> is a step of the
  goroutine of a request. \<open>EvFinish\<close> is the deferred \<open>release\<close> of a request whose run has ended,
  \<open>EvClose\<close> the deferred \<open>Unsubscribe\<close> after it; \<open>EvStop\<close>, \<open>EvUnsubscribe\<close>, \<open>EvAbandon\<close> and
  \<open>EvReturn\<close> are \<open>Serve\<close> after its subscription, in the order of the code; \<open>Serve\<close> returns when no
  goroutine of the wait group is left.
\<close>

fun worker_step :: "worker_env \<Rightarrow> worker_event \<Rightarrow> worker_state \<Rightarrow> worker_state option" where
  "worker_step E (EvAssign raw) s =
     (if ws_handler s = HandlerIdle \<and> (ws_serve s = Serving \<or> ws_serve s = Stopping)
      then Some (s\<lparr>ws_handler := HandlerDelivered raw\<rparr>) else None)"
| "worker_step E EvAdmit s =
     (case ws_handler s of HandlerDelivered raw \<Rightarrow> Some (admitStep E s) | _ \<Rightarrow> None)"
| "worker_step E (EvPrepare subOk flushOk) s =
     (case ws_handler s of HandlerAdmitted env \<Rightarrow> Some (prepareStep E subOk flushOk s) | _ \<Rightarrow> None)"
| "worker_step E EvReserve s =
     (case ws_handler s of HandlerPrepared env n \<Rightarrow> Some (reserveStep s) | _ \<Rightarrow> None)"
| "worker_step E EvStart s =
     (case ws_handler s of HandlerReserved env n \<Rightarrow> Some (startStep s) | _ \<Rightarrow> None)"
| "worker_step E (EvRun i e) s =
     (if i < length (ws_running s)
      then (let a = ws_running s ! i
            in case request_step (we_requests E) (ctxEnds s a) (assignRequest (as_env a)) (as_env a) e (as_run a) of
                 None \<Rightarrow> None
               | Some p \<Rightarrow> Some (s\<lparr>ws_running := (ws_running s)[i := a\<lparr>as_run := p\<rparr>]\<rparr>))
      else None)"
| "worker_step E (EvFinish i) s =
     (if i < length (ws_running s) \<and> request_ended (as_run (ws_running s ! i))
      then (let a = ws_running s ! i
            in Some (s\<lparr>ws_worker := release (request_id (as_env a)) (ws_worker s),
                       ws_running := remove_at i (ws_running s),
                       ws_closing := ws_closing s @ [as_number a]\<rparr>))
      else None)"
| "worker_step E (EvClose i) s =
     (if i < length (ws_closing s)
      then Some (act [ActUnsubscribe (ws_closing s ! i)]
                   (s\<lparr>ws_closing := remove_at i (ws_closing s)\<rparr>))
      else None)"
| "worker_step E (EvSetDraining d) s = Some (s\<lparr>ws_worker := SetDraining d (ws_worker s)\<rparr>)"
| "worker_step E EvStop s =
     (if ws_serve s = Serving
      then Some (s\<lparr>ws_serve := Stopping, ws_worker := SetDraining True (ws_worker s)\<rparr>) else None)"
| "worker_step E EvUnsubscribe s =
     (if ws_serve s = Stopping then Some (s\<lparr>ws_serve := Unsubscribed\<rparr>) else None)"
| "worker_step E EvAbandon s =
     (if ws_serve s = Unsubscribed
      then Some (act (map ActCancel (cancelsInFlight (ws_worker s))) (s\<lparr>ws_serve := Abandoned\<rparr>)) else None)"
| "worker_step E EvReturn s =
     (if (ws_serve s = Unsubscribed \<or> ws_serve s = Abandoned) \<and> ws_running s = [] \<and> ws_closing s = []
      then Some (s\<lparr>ws_serve := Returned\<rparr>) else None)"

abbreviation worker_run :: "worker_env \<Rightarrow> worker_event list \<Rightarrow> worker_state \<Rightarrow> worker_state option" where
  "worker_run E \<equiv> run_steps (worker_step E)"

inductive worker_reach :: "worker_env \<Rightarrow> worker_state \<Rightarrow> worker_state \<Rightarrow> bool" for E s where
  worker_reach_refl: "worker_reach E s s"
| worker_reach_step: "worker_reach E s t \<Longrightarrow> worker_step E e t = Some u \<Longrightarrow> worker_reach E s u"

definition worker_start :: "Worker \<Rightarrow> worker_state" where
  "worker_start w =
     \<lparr>ws_worker = w, ws_next = 0, ws_handler = HandlerIdle, ws_running = [], ws_closing = [],
      ws_serve = Serving, ws_log = []\<rparr>"

text \<open>\<open>Serve\<close> up to the wait for \<open>stop\<close>, with the outcomes of \<open>Subscribe\<close> and \<open>Flush\<close>.\<close>

datatype serve_error = AssignmentSubjectError subject_error | SubscribeFailed | FlushFailed

definition serveStart :: "worker_env \<Rightarrow> Worker \<Rightarrow> bool \<Rightarrow> bool \<Rightarrow> serve_error + worker_state" where
  "serveStart E w subOk flushOk =
     (case AssignmentSubject (we_tables E) (id_WorkerID (wk_id w)) (wk_sessionID w) of
        Inl err \<Rightarrow> Inl (AssignmentSubjectError err)
      | Inr subject \<Rightarrow>
          (if \<not> subOk then Inl SubscribeFailed
           else if \<not> flushOk then Inl FlushFailed
           else Inr (worker_start w)))"

end
