(* ===== verification/Worker_Safety.thy ===== *)
theory Worker_Safety
  imports Worker
begin

text \<open>
  What holds of a worker in every interleaving: the concurrency limit, one reply per assignment,
  acceptance only with an open stream subscription, the cancel functions, and the shutdown.
\<close>

section \<open>The steps\<close>

lemma length_remove_at: "i < length xs \<Longrightarrow> length (remove_at i xs) = length xs - 1"
  by (auto simp: remove_at_def)

lemma set_remove_at: "set (remove_at i xs) \<subseteq> set xs"
  by (auto simp: remove_at_def dest: in_set_takeD in_set_dropD)

lemma map_remove_at: "map f (remove_at i xs) = remove_at i (map f xs)"
  by (simp add: remove_at_def take_map drop_map)

lemma remove_at_split: "i < length xs \<Longrightarrow> \<exists>us vs. xs = us @ xs ! i # vs \<and> remove_at i xs = us @ vs"
  by (intro exI [of _ "take i xs"] exI [of _ "drop (Suc i) xs"])
    (simp add: remove_at_def id_take_nth_drop [symmetric])

lemma act_simps [simp]:
  "ws_worker (act as s) = ws_worker s" "ws_next (act as s) = ws_next s"
  "ws_handler (act as s) = ws_handler s" "ws_running (act as s) = ws_running s"
  "ws_closing (act as s) = ws_closing s" "ws_serve (act as s) = ws_serve s"
  "ws_log (act as s) = ws_log s @ as"
  by (simp_all add: act_def)

lemma act_log_unchanged [simp]: "act [] s = s"
  by (simp add: act_def)

text \<open>\<open>admit\<close> either replies once with a rejection or moves the handler to the admitted state.\<close>

lemma admit_cases:
  obtains (decode) err where "UnmarshalEnvelope (we_unmarshal E) raw = Inl err"
      "admit E raw s = act [ActReply None ASSIGN_ACK_REJECTED_ERROR] s"
  | (reject) env code where "UnmarshalEnvelope (we_unmarshal E) raw = Inr env"
      "code = EvaluateAssignment (we_valid E) (GetAssignRequest env) (snapshotCapacity (ws_worker s))"
      "code \<noteq> ASSIGN_ACK_ACCEPTED" "admit E raw s = act [ActReply (Some env) code] s"
  | (accept) env where "UnmarshalEnvelope (we_unmarshal E) raw = Inr env"
      "EvaluateAssignment (we_valid E) (GetAssignRequest env) (snapshotCapacity (ws_worker s))
         = ASSIGN_ACK_ACCEPTED"
      "admit E raw s = s\<lparr>ws_handler := HandlerAdmitted env\<rparr>"
proof (cases "UnmarshalEnvelope (we_unmarshal E) raw")
  case (Inl err)
  then show ?thesis by (intro decode) (simp_all add: admit_def)
next
  case (Inr env)
  let ?code = "EvaluateAssignment (we_valid E) (GetAssignRequest env) (snapshotCapacity (ws_worker s))"
  show ?thesis
  proof (cases "?code = ASSIGN_ACK_ACCEPTED")
    case True
    then show ?thesis using Inr by (intro accept) (simp_all add: admit_def)
  next
    case False
    then show ?thesis using Inr by (intro reject) (simp_all add: admit_def)
  qed
qed

text \<open>\<open>prepareRequestStream\<close> either succeeds with a new open subscription or leaves none behind.\<close>

lemma prepare_cases:
  obtains (fail) as where "prepareRequestStream E w n subOk flushOk env = (as, None)"
      "as = [] \<or> (\<exists>subj. as = [ActSubscribe n subj, ActFlush, ActUnsubscribe n])"
  | (ok) c2e e2c where "subOk" "flushOk"
      "StreamSubject (we_tables E) (request_id env) (id_WorkerID (wk_id w)) (wk_sessionID w)
         DirectionControlToExecutor = Inr c2e"
      "StreamSubject (we_tables E) (request_id env) (id_WorkerID (wk_id w)) (wk_sessionID w)
         DirectionExecutorToControl = Inr e2c"
      "prepareRequestStream E w n subOk flushOk env = ([ActSubscribe n c2e, ActFlush], Some e2c)"
proof -
  let ?S = "StreamSubject (we_tables E) (request_id env) (id_WorkerID (wk_id w)) (wk_sessionID w)"
  show ?thesis
  proof (cases "subOk \<and> flushOk \<and> (\<exists>c2e. ?S DirectionControlToExecutor = Inr c2e)
      \<and> (\<exists>e2c. ?S DirectionExecutorToControl = Inr e2c)")
    case True
    then show ?thesis by (auto simp: prepareRequestStream_def intro: ok)
  next
    case False
    then show ?thesis
      by (intro fail [of "fst (prepareRequestStream E w n subOk flushOk env)"])
        (auto simp: prepareRequestStream_def split: sum.splits)
  qed
qed

lemma prepareStep_cases:
  assumes "ws_handler s = HandlerAdmitted env"
  obtains (fail) as where "prepareStep E subOk flushOk s =
      act (as @ [ActReply (Some env) ASSIGN_ACK_REJECTED_ERROR])
        (s\<lparr>ws_handler := HandlerIdle, ws_next := Suc (ws_next s)\<rparr>)"
      "as = [] \<or> (\<exists>subj. as = [ActSubscribe (ws_next s) subj, ActFlush, ActUnsubscribe (ws_next s)])"
  | (ok) c2e where
      "StreamSubject (we_tables E) (request_id env) (id_WorkerID (wk_id (ws_worker s)))
         (wk_sessionID (ws_worker s)) DirectionControlToExecutor = Inr c2e"
      "prepareStep E subOk flushOk s = act [ActSubscribe (ws_next s) c2e, ActFlush]
        (s\<lparr>ws_handler := HandlerPrepared env (ws_next s), ws_next := Suc (ws_next s)\<rparr>)"
  using assms
  by (cases rule: prepare_cases [of E "ws_worker s" "ws_next s" subOk flushOk env])
    (auto simp: prepareStep_def)

text \<open>
  A step in one of eight forms: what the handler does, a request that ends, a subscription that is
  closed, the drain flag, and the phases of \<open>Serve\<close>.
\<close>

lemma worker_step_cases:
  assumes "worker_step E e s = Some t"
  obtains (deliver) raw where "e = EvAssign raw" "ws_handler s = HandlerIdle" "t = s\<lparr>ws_handler := HandlerDelivered raw\<rparr>"
      "ws_serve s = Serving \<or> ws_serve s = Stopping"
  | (assign) raw where "e = EvAdmit" "ws_handler s = HandlerDelivered raw"
      "t = admit E raw (s\<lparr>ws_handler := HandlerIdle\<rparr>)"
  | (prepare) subOk flushOk env where "e = EvPrepare subOk flushOk" "ws_handler s = HandlerAdmitted env"
      "t = prepareStep E subOk flushOk s"
  | (reserve) env n where "e = EvReserve" "ws_handler s = HandlerPrepared env n"
      "t = s\<lparr>ws_worker := reserve (request_id env) n (ws_worker s), ws_handler := HandlerReserved env n\<rparr>"
  | (start) env n where "e = EvStart" "ws_handler s = HandlerReserved env n"
      "t = act [ActReply (Some env) ASSIGN_ACK_ACCEPTED] (s\<lparr>ws_handler := HandlerIdle,
         ws_running := ws_running s @
           [\<lparr>as_number = n, as_env = env, as_context = requestContext (deadline_unix_ms env), as_run = Starting\<rparr>]\<rparr>)"
  | (run) us a vs r p where "\<exists>i. e = EvRun i r" "ws_running s = us @ a # vs"
      "request_step (we_requests E) (ctxEnds s a) (assignRequest (as_env a)) (as_env a) r (as_run a) = Some p"
      "t = s\<lparr>ws_running := us @ a\<lparr>as_run := p\<rparr> # vs\<rparr>"
  | (finish) us a vs where "\<exists>i. e = EvFinish i" "ws_running s = us @ a # vs" "request_ended (as_run a)"
      "t = s\<lparr>ws_worker := release (request_id (as_env a)) (ws_worker s), ws_running := us @ vs,
         ws_closing := ws_closing s @ [as_number a]\<rparr>"
  | (close) us n vs where "\<exists>i. e = EvClose i" "ws_closing s = us @ n # vs"
      "t = act [ActUnsubscribe n] (s\<lparr>ws_closing := us @ vs\<rparr>)"
  | (drain) d p as where "\<forall>raw. e \<noteq> EvAssign raw"
      "t = act (map ActCancel as) (s\<lparr>ws_worker := SetDraining d (ws_worker s), ws_serve := p\<rparr>)"
      "p = Returned \<and> p \<noteq> ws_serve s \<longrightarrow> ws_running s = [] \<and> ws_closing s = []"
      "ws_serve s \<noteq> Returned \<or> p = Returned"
      "(ws_serve s = Serving \<or> ws_serve s = Stopping) \<or> \<not> (p = Serving \<or> p = Stopping)"
      "\<forall>i r. e \<noteq> EvRun i r \<and> e \<noteq> EvFinish i \<and> e \<noteq> EvClose i"
proof (cases e)
  case (EvRun i r)
  with assms obtain p where i: "i < length (ws_running s)" and p: "request_step (we_requests E) (ctxEnds s (ws_running s ! i))
      (assignRequest (as_env (ws_running s ! i))) (as_env (ws_running s ! i)) r (as_run (ws_running s ! i)) = Some p"
      and t: "t = s\<lparr>ws_running := (ws_running s)[i := (ws_running s ! i)\<lparr>as_run := p\<rparr>]\<rparr>"
    by (auto simp: Let_def split: if_splits option.splits)
  show ?thesis
    by (rule run [OF _ id_take_nth_drop [OF i] p]) (use EvRun t i in \<open>auto simp: upd_conv_take_nth_drop\<close>)
next
  case (EvFinish i)
  with assms have i: "i < length (ws_running s)" and r: "request_ended (as_run (ws_running s ! i))"
    by (auto simp: Let_def split: if_split_asm)
  from remove_at_split [OF i] obtain us vs
    where "ws_running s = us @ ws_running s ! i # vs" "remove_at i (ws_running s) = us @ vs" by blast
  with i r show ?thesis using assms EvFinish by (intro finish) (auto simp: Let_def)
next
  case (EvClose i)
  with assms have i: "i < length (ws_closing s)" by (auto split: if_splits)
  from remove_at_split [OF this] obtain us vs
    where "ws_closing s = us @ ws_closing s ! i # vs" "remove_at i (ws_closing s) = us @ vs" by blast
  with i show ?thesis using assms EvClose by (intro close) auto
next
  case (EvSetDraining d)
  then show ?thesis using assms by (intro drain [where as = "[]" and d = d and p = "ws_serve s"]) auto
next
  case EvStop
  then show ?thesis using assms by (intro drain [where as = "[]" and d = True and p = Stopping]) (auto split: if_splits)
next
  case EvUnsubscribe
  then show ?thesis using assms
    by (intro drain [where as = "[]" and d = "wk_draining (ws_worker s)" and p = Unsubscribed]) (auto simp: SetDraining_def split: if_splits)
next
  case EvAbandon
  then show ?thesis using assms
    by (intro drain [where as = "cancelsInFlight (ws_worker s)" and d = "wk_draining (ws_worker s)" and p = Abandoned])
      (auto simp: SetDraining_def split: if_splits)
next
  case EvReturn
  then show ?thesis using assms
    by (intro drain [where as = "[]" and d = "wk_draining (ws_worker s)" and p = Returned]) (auto simp: SetDraining_def split: if_splits)
qed (use assms in \<open>auto simp: admitStep_def reserveStep_def startStep_def split: if_splits handler_state.splits
       intro: deliver assign prepare reserve start\<close>)

section \<open>The concurrency limit\<close>

text \<open>
  The requests counted in \<open>active\<close>: those running and the one the handler has reserved. The
  places taken include the assignment the handler has admitted and not yet reserved.
\<close>

definition reserved :: "worker_state \<Rightarrow> nat" where
  "reserved s = (case ws_handler s of HandlerReserved _ _ \<Rightarrow> 1 | _ \<Rightarrow> 0)"

definition claimed :: "worker_state \<Rightarrow> nat" where
  "claimed s = (case ws_handler s of HandlerIdle \<Rightarrow> 0 | HandlerDelivered _ \<Rightarrow> 0 | _ \<Rightarrow> 1)"

text \<open>The message the handler has taken and not yet answered.\<close>

definition pending :: "worker_state \<Rightarrow> nat" where
  "pending s = (if ws_handler s = HandlerIdle then 0 else 1)"

definition limit_inv :: "u32 \<Rightarrow> worker_state \<Rightarrow> bool" where
  "limit_inv m s \<longleftrightarrow>
     wk_maxConcurrency (ws_worker s) = m
     \<and> wk_active (ws_worker s) = of_nat (length (ws_running s) + reserved s)
     \<and> (m \<noteq> 0 \<longrightarrow> length (ws_running s) + claimed s \<le> unat m)"

lemma reserved_le_claimed: "reserved s \<le> claimed s"
  by (simp add: reserved_def claimed_def split: handler_state.splits)

lemma limit_inv_active:
  assumes "limit_inv m s" and "m \<noteq> 0"
  shows "unat (wk_active (ws_worker s)) = length (ws_running s) + reserved s"
proof -
  have "length (ws_running s) + reserved s < 2 ^ 32"
    using assms reserved_le_claimed [of s] unsigned_less [of m, where 'a = nat]
    by (auto simp: limit_inv_def)
  then show ?thesis using assms by (simp add: limit_inv_def unat_of_nat del: of_nat_add)
qed

lemma limit_inv_admit:
  assumes "limit_inv m s" and "ws_handler s = HandlerIdle"
  shows "limit_inv m (admit E raw s)"
proof (cases rule: admit_cases [of E raw s])
  case (accept env)
  then have room: "hasCapacity (snapshotCapacity (ws_worker s))" by (auto simp: accepted_iff)
  have "length (ws_running s) < unat m" if "m \<noteq> 0"
    using room limit_inv_active [OF assms(1) that] assms that
    by (simp add: hasCapacity_def snapshotCapacity_def limit_inv_def reserved_def word_less_nat_alt)
  then show ?thesis using assms accept by (auto simp: limit_inv_def reserved_def claimed_def)
qed (use assms in \<open>simp_all add: limit_inv_def reserved_def claimed_def\<close>)

lemma limit_inv_prepare:
  assumes "limit_inv m s" and "ws_handler s = HandlerAdmitted env"
  shows "limit_inv m (prepareStep E subOk flushOk s)"
  using assms
  by (cases rule: prepareStep_cases [OF assms(2), of E subOk flushOk])
    (auto simp: limit_inv_def reserved_def claimed_def)

lemma limit_inv_step:
  assumes "limit_inv m s" and "worker_step E e s = Some t"
  shows "limit_inv m t"
  using assms(2)
proof (cases rule: worker_step_cases)
  case (assign raw)
  have "limit_inv m (s\<lparr>ws_handler := HandlerIdle\<rparr>)"
    using assms(1) assign(2) by (simp add: limit_inv_def reserved_def claimed_def)
  then show ?thesis using assign(3) by (simp add: limit_inv_admit)
next
  case (prepare subOk flushOk env)
  then show ?thesis using limit_inv_prepare [OF assms(1)] by simp
next
  case (finish us a vs)
  then show ?thesis using assms(1)
    by (auto simp: limit_inv_def reserved_def claimed_def release_def)
next
  case (drain d p as)
  then show ?thesis using assms(1)
    by (simp add: limit_inv_def reserved_def claimed_def SetDraining_def)
qed (use assms(1) in \<open>simp_all add: limit_inv_def reserved_def claimed_def reserve_def release_def\<close>)

lemma limit_inv_reach:
  assumes "worker_reach E s t" and "limit_inv m s"
  shows "limit_inv m t"
  using assms by (induction rule: worker_reach.induct) (auto intro: limit_inv_step)

lemma limit_inv_start: "wk_active w = 0 \<Longrightarrow> limit_inv (wk_maxConcurrency w) (worker_start w)"
  by (simp add: limit_inv_def worker_start_def reserved_def claimed_def)

section \<open>Replies\<close>

definition is_reply :: "worker_action \<Rightarrow> bool" where
  "is_reply a \<longleftrightarrow> (\<exists>env code. a = ActReply env code)"

definition replies :: "worker_state \<Rightarrow> nat" where
  "replies s = length (filter is_reply (ws_log s)) + pending s"

definition is_assign :: "worker_event \<Rightarrow> bool" where
  "is_assign e \<longleftrightarrow> (\<exists>raw. e = EvAssign raw)"

lemma is_reply_simps [simp]:
  "is_reply (ActReply env code)" "\<not> is_reply (ActSubscribe n subj)" "\<not> is_reply ActFlush"
  "\<not> is_reply (ActUnsubscribe n)" "\<not> is_reply (ActCancel n)"
  by (simp_all add: is_reply_def)

lemma filter_cancels [simp]: "filter is_reply (map ActCancel ns) = []"
  by (induction ns) simp_all

lemma replies_step:
  assumes "worker_step E e s = Some t"
  shows "replies t = replies s + (if is_assign e then 1 else 0)"
  using assms
proof (cases rule: worker_step_cases)
  case (assign raw)
  then show ?thesis
    by (cases rule: admit_cases [of E raw "s\<lparr>ws_handler := HandlerIdle\<rparr>"])
      (simp_all add: replies_def pending_def is_assign_def)
next
  case (prepare subOk flushOk env)
  then show ?thesis
    by (cases rule: prepareStep_cases [OF prepare(2), of E subOk flushOk])
      (auto simp: replies_def pending_def is_assign_def)
qed (auto simp: replies_def pending_def is_assign_def)

lemma replies_run:
  "worker_run E es s = Some t \<Longrightarrow> replies t = replies s + length (filter is_assign es)"
proof (induction es arbitrary: s)
  case (Cons e es)
  then obtain u where "worker_step E e s = Some u" and "worker_run E es u = Some t"
    by (auto split: option.splits)
  then show ?case using replies_step [of E e s u] Cons.IH [of u] by simp
qed simp

section \<open>Streams of accepted requests\<close>

text \<open>
  The subscription \<open>n\<close> on the request's own stream subject has been made and flushed, and is not
  closed.
\<close>

definition stream_open :: "worker_env \<Rightarrow> Worker \<Rightarrow> Envelope \<Rightarrow> nat \<Rightarrow> worker_action list \<Rightarrow> bool" where
  "stream_open E w env n as \<longleftrightarrow>
     (\<exists>c2e us vs. StreamSubject (we_tables E) (request_id env) (id_WorkerID (wk_id w)) (wk_sessionID w)
          DirectionControlToExecutor = Inr c2e
        \<and> as = us @ ActSubscribe n c2e # vs \<and> ActFlush \<in> set vs) \<and> ActUnsubscribe n \<notin> set as"

definition accepts_open :: "worker_env \<Rightarrow> Worker \<Rightarrow> worker_action list \<Rightarrow> bool" where
  "accepts_open E w as \<longleftrightarrow>
     (\<forall>pre env post. as = pre @ ActReply (Some env) ASSIGN_ACK_ACCEPTED # post \<longrightarrow> (\<exists>n. stream_open E w env n pre))"

lemma stream_open_append:
  "stream_open E w env n as \<Longrightarrow> ActUnsubscribe n \<notin> set bs \<Longrightarrow> stream_open E w env n (as @ bs)"
  by (fastforce simp: stream_open_def)

lemma accepts_open_Nil [simp]: "accepts_open E w []"
  by (simp add: accepts_open_def)

lemma accepts_open_snoc:
  "accepts_open E w (as @ [a]) \<longleftrightarrow>
     accepts_open E w as
     \<and> (\<forall>env. a = ActReply (Some env) ASSIGN_ACK_ACCEPTED \<longrightarrow> (\<exists>n. stream_open E w env n as))"
  (is "?l \<longleftrightarrow> ?r")
proof
  assume l: ?l
  have "\<exists>n. stream_open E w env n pre"
    if "as = pre @ ActReply (Some env) ASSIGN_ACK_ACCEPTED # post" for pre env post
    using l that unfolding accepts_open_def by (metis append_Cons append_assoc)
  then show ?r using l unfolding accepts_open_def by blast
next
  assume r: ?r
  show ?l
    unfolding accepts_open_def
  proof (intro allI impI)
    fix pre env post assume eq: "as @ [a] = pre @ ActReply (Some env) ASSIGN_ACK_ACCEPTED # post"
    show "\<exists>n. stream_open E w env n pre"
    proof (cases post rule: rev_cases)
      case Nil
      then show ?thesis using eq r by auto
    next
      case (snoc post' b)
      with eq have "as = pre @ ActReply (Some env) ASSIGN_ACK_ACCEPTED # post'" by simp
      then show ?thesis using r unfolding accepts_open_def by blast
    qed
  qed
qed

lemma accepts_open_append:
  "(\<And>env. ActReply (Some env) ASSIGN_ACK_ACCEPTED \<notin> set bs) \<Longrightarrow> accepts_open E w as \<Longrightarrow> accepts_open E w (as @ bs)"
proof (induction bs arbitrary: as)
  case (Cons b bs)
  then have "accepts_open E w (as @ [b])" by (auto simp: accepts_open_snoc)
  with Cons.IH [of "as @ [b]"] Cons.prems(1) show ?case by simp
qed simp

text \<open>The subscriptions the worker still holds, with the request each one serves.\<close>

definition held :: "worker_state \<Rightarrow> (nat \<times> Envelope) list" where
  "held s = map (\<lambda>a. (as_number a, as_env a)) (ws_running s)
     @ (case ws_handler s of HandlerPrepared env n \<Rightarrow> [(n, env)] | HandlerReserved env n \<Rightarrow> [(n, env)] | _ \<Rightarrow> [])"

definition stream_inv :: "worker_env \<Rightarrow> Worker \<Rightarrow> worker_state \<Rightarrow> bool" where
  "stream_inv E w s \<longleftrightarrow>
     wk_id (ws_worker s) = wk_id w \<and> wk_sessionID (ws_worker s) = wk_sessionID w
     \<and> distinct (map fst (held s) @ ws_closing s)
     \<and> (\<forall>n\<in>fst ` set (held s) \<union> set (ws_closing s). n < ws_next s)
     \<and> (\<forall>n. ActUnsubscribe n \<in> set (ws_log s) \<longrightarrow> n < ws_next s)
     \<and> (\<forall>(n, env)\<in>set (held s). stream_open E w env n (ws_log s))
     \<and> accepts_open E w (ws_log s)"

lemma stream_inv_quiet:
  assumes "stream_inv E w s" and "set (held t) \<subseteq> set (held s)" and "distinct (map fst (held t) @ ws_closing t)"
    and "set (ws_closing t) \<subseteq> fst ` set (held s) \<union> set (ws_closing s)" and "ws_next s \<le> ws_next t"
    and "wk_id (ws_worker t) = wk_id (ws_worker s)" "wk_sessionID (ws_worker t) = wk_sessionID (ws_worker s)"
    and "ws_log t = ws_log s @ as" and "\<And>env. ActReply (Some env) ASSIGN_ACK_ACCEPTED \<notin> set as"
    and "\<And>n. ActUnsubscribe n \<in> set as \<Longrightarrow> n < ws_next t \<and> n \<notin> fst ` set (held t)"
  shows "stream_inv E w t"
proof -
  have open': "stream_open E w env n (ws_log t)" if "(n, env) \<in> set (held t)" for n env
  proof -
    have "ActUnsubscribe n \<notin> set as" using assms(10) [of n] that by force
    moreover have "stream_open E w env n (ws_log s)"
      using assms(1) subsetD [OF assms(2) that] by (auto simp: stream_inv_def)
    ultimately show ?thesis using assms(8) by (simp add: stream_open_append)
  qed
  have "n < ws_next t" if "n \<in> fst ` set (held t) \<union> set (ws_closing t)" for n
  proof -
    have "n \<in> fst ` set (held s) \<union> set (ws_closing s)" using that assms(2,4) by blast
    then have "n < ws_next s" using assms(1) unfolding stream_inv_def by blast
    then show ?thesis using assms(5) by simp
  qed
  moreover have "n < ws_next t" if "ActUnsubscribe n \<in> set (ws_log t)" for n
  proof (cases "ActUnsubscribe n \<in> set as")
    case True
    then show ?thesis using assms(10) by blast
  next
    case False
    then have "ActUnsubscribe n \<in> set (ws_log s)" using that assms(8) by simp
    then have "n < ws_next s" using assms(1) by (simp add: stream_inv_def)
    then show ?thesis using assms(5) by simp
  qed
  moreover have "accepts_open E w (ws_log t)"
    using assms(1,8,9) by (simp add: stream_inv_def accepts_open_append)
  ultimately show ?thesis
    using assms(1,3,6,7) open' by (auto simp: stream_inv_def)
qed

lemma held_act [simp]: "held (act as s) = held s"
  by (simp add: held_def)

lemma stream_inv_assign:
  assumes "stream_inv E w s" and "ws_handler s = HandlerIdle"
  shows "stream_inv E w (admit E raw s)"
proof -
  have held: "held (admit E raw s) = held s"
    using assms(2) by (cases rule: admit_cases [of E raw s]) (simp_all add: held_def)
  have "\<exists>as. ws_log (admit E raw s) = ws_log s @ as \<and> (\<forall>env. ActReply (Some env) ASSIGN_ACK_ACCEPTED \<notin> set as)
      \<and> (\<forall>n. ActUnsubscribe n \<notin> set as)"
    by (cases rule: admit_cases [of E raw s]) auto
  moreover have "ws_closing (admit E raw s) = ws_closing s" "ws_next (admit E raw s) = ws_next s"
    "ws_worker (admit E raw s) = ws_worker s"
    by (cases rule: admit_cases [of E raw s]; simp)+
  ultimately show ?thesis
    using assms(1) held by (elim exE conjE, intro stream_inv_quiet [OF assms(1)]) (auto simp: stream_inv_def)
qed

lemma stream_inv_prepare:
  assumes "stream_inv E w s" and "ws_handler s = HandlerAdmitted env"
  shows "stream_inv E w (prepareStep E subOk flushOk s)"
  using assms(2)
proof (cases rule: prepareStep_cases [where E = E and subOk = subOk and flushOk = flushOk])
  case (fail as)
  have held: "held (prepareStep E subOk flushOk s) = held s"
    using fail(1) assms(2) by (simp add: held_def)
  have "ws_next s \<notin> fst ` set (held s)" using assms(1) by (auto simp: stream_inv_def)
  then have "(ws_next s, e) \<notin> set (held s)" for e by force
  then show ?thesis
    using assms(1) fail held
    by (intro stream_inv_quiet [OF assms(1), of _ "as @ [ActReply (Some env) ASSIGN_ACK_REJECTED_ERROR]"])
      (auto simp: stream_inv_def)
next
  case (ok c2e)
  let ?t = "prepareStep E subOk flushOk s"
  have held: "held ?t = held s @ [(ws_next s, env)]"
    using ok(2) assms(2) by (simp add: held_def)
  have fresh: "ws_next s \<notin> fst ` set (held s) \<union> set (ws_closing s)" "ActUnsubscribe (ws_next s) \<notin> set (ws_log s)"
    using assms(1) by (auto simp: stream_inv_def)
  have old: "stream_open E w e n (ws_log s @ [ActSubscribe (ws_next s) c2e, ActFlush])"
    if "(n, e) \<in> set (held s)" for n e
    using that assms(1) by (intro stream_open_append) (auto simp: stream_inv_def)
  have new: "stream_open E w env (ws_next s) (ws_log s @ [ActSubscribe (ws_next s) c2e, ActFlush])"
  proof -
    have "\<exists>us vs. ws_log s @ [ActSubscribe (ws_next s) c2e, ActFlush] = us @ ActSubscribe (ws_next s) c2e # vs
        \<and> ActFlush \<in> set vs"
      by (rule exI [of _ "ws_log s"], rule exI [of _ "[ActFlush]"]) simp
    then show ?thesis using assms(1) ok(1) fresh(2) by (simp add: stream_open_def stream_inv_def)
  qed
  have "accepts_open E w (ws_log s @ [ActSubscribe (ws_next s) c2e, ActFlush])"
    using assms(1) by (intro accepts_open_append) (auto simp: stream_inv_def)
  then show ?thesis
    using assms(1) fresh old new held ok(2) by (auto simp: stream_inv_def less_Suc_eq)
qed

lemma stream_inv_start:
  assumes "stream_inv E w s" and "ws_handler s = HandlerReserved env n"
    and t: "t = act [ActReply (Some env) ASSIGN_ACK_ACCEPTED] (s\<lparr>ws_handler := HandlerIdle,
         ws_running := ws_running s @
           [\<lparr>as_number = n, as_env = env, as_context = requestContext (deadline_unix_ms env), as_run = Starting\<rparr>]\<rparr>)"
  shows "stream_inv E w t"
proof -
  have held: "held t = held s" using assms(2) by (simp add: held_def t)
  have "(n, env) \<in> set (held s)" using assms(2) by (simp add: held_def)
  then have "stream_open E w env n (ws_log s)" using assms(1) by (auto simp: stream_inv_def)
  then have "accepts_open E w (ws_log t)"
    using assms(1) by (auto simp: t accepts_open_snoc stream_inv_def)
  moreover have "stream_open E w e k (ws_log t)" if "(k, e) \<in> set (held s)" for k e
    using that assms(1) unfolding t act_simps
    by (intro stream_open_append) (auto simp: stream_inv_def)
  ultimately show ?thesis using assms(1) held by (auto simp: stream_inv_def t)
qed

lemma stream_inv_step:
  assumes "stream_inv E w s" and "worker_step E e s = Some t"
  shows "stream_inv E w t"
  using assms(2)
proof (cases rule: worker_step_cases)
  case (deliver raw)
  then show ?thesis using assms(1)
    by (intro stream_inv_quiet [OF assms(1), of _ "[]"]) (auto simp: stream_inv_def held_def)
next
  case (assign raw)
  have "stream_inv E w (s\<lparr>ws_handler := HandlerIdle\<rparr>)" using assms(1) assign(2)
    by (intro stream_inv_quiet [OF assms(1), of _ "[]"]) (auto simp: stream_inv_def held_def)
  then show ?thesis using assign(3) by (simp add: stream_inv_assign)
next
  case (run us a vs r p)
  then show ?thesis using assms(1)
    by (intro stream_inv_quiet [OF assms(1), of _ "[]"]) (auto simp: stream_inv_def held_def)
next
  case (prepare subOk flushOk env)
  then show ?thesis using stream_inv_prepare [OF assms(1)] by simp
next
  case (reserve env n)
  then show ?thesis using assms(1) by (simp add: stream_inv_def held_def reserve_def)
next
  case (start env n)
  then show ?thesis using stream_inv_start [OF assms(1)] by simp
next
  case (finish us a vs)
  then show ?thesis using assms(1)
    by (intro stream_inv_quiet [OF assms(1), of _ "[]"]) (auto simp: stream_inv_def held_def release_def)
next
  case (close us n vs)
  have "n < ws_next s" "n \<notin> fst ` set (held s)" using assms(1) close by (auto simp: stream_inv_def)
  then show ?thesis using assms(1) close
    by (intro stream_inv_quiet [OF assms(1), of _ "[ActUnsubscribe n]"]) (auto simp: stream_inv_def held_def)
next
  case (drain d p as)
  then show ?thesis using assms(1)
    by (intro stream_inv_quiet [OF assms(1), of _ "map ActCancel as"])
      (auto simp: stream_inv_def held_def SetDraining_def)
qed

lemma stream_inv_reach:
  assumes "worker_reach E s t" and "stream_inv E w s"
  shows "stream_inv E w t"
  using assms by (induction rule: worker_reach.induct) (auto intro: stream_inv_step)

lemma stream_inv_worker_start: "stream_inv E w (worker_start w)"
  by (simp add: stream_inv_def worker_start_def held_def)

section \<open>Cancel functions\<close>

fun accepted_id :: "worker_action \<Rightarrow> string list" where
  "accepted_id (ActReply (Some env) ASSIGN_ACK_ACCEPTED) = [request_id env]"
| "accepted_id a = []"

text \<open>The request ids accepted so far, the reserved one included.\<close>

definition accepted_ids :: "worker_state \<Rightarrow> string list" where
  "accepted_ids s = concat (map accepted_id (ws_log s))
     @ (case ws_handler s of HandlerReserved env n \<Rightarrow> [request_id env] | _ \<Rightarrow> [])"

text \<open>The contexts of the requests in flight, by request id.\<close>

definition in_flight :: "worker_state \<Rightarrow> (string \<times> nat) list" where
  "in_flight s = map (\<lambda>a. (request_id (as_env a), as_number a)) (ws_running s)
     @ (case ws_handler s of HandlerReserved env n \<Rightarrow> [(request_id env, n)] | _ \<Rightarrow> [])"

definition cancel_inv :: "worker_state \<Rightarrow> bool" where
  "cancel_inv s \<longleftrightarrow>
     (distinct (accepted_ids s) \<longrightarrow>
        distinct (map fst (in_flight s)) \<and> fst ` set (in_flight s) \<subseteq> set (accepted_ids s)
        \<and> distinct (map fst (wk_cancels (ws_worker s)))
        \<and> set (wk_cancels (ws_worker s)) = set (in_flight s))"

lemma update_new: "k \<notin> fst ` set al \<Longrightarrow> AList.update k v al = al @ [(k, v)]"
  by (induction al) auto

lemma set_delete: "set (AList.delete k al) = {p \<in> set al. fst p \<noteq> k}"
  by (auto simp: AList.delete_eq)

lemma accepted_id_not_accepted: "c \<noteq> ASSIGN_ACK_ACCEPTED \<Longrightarrow> accepted_id (ActReply e c) = []"
  by (cases "ActReply e c" rule: accepted_id.cases) auto

lemma concat_accepted_cancels [simp]: "concat (map (accepted_id \<circ> ActCancel) ns) = []"
  by (induction ns) simp_all

lemma accepted_act [simp]:
  "accepted_ids (act as s) = concat (map accepted_id (ws_log s @ as))
     @ (case ws_handler s of HandlerReserved env n \<Rightarrow> [request_id env] | _ \<Rightarrow> [])"
  "in_flight (act as s) = in_flight s"
  by (simp_all add: accepted_ids_def in_flight_def)

lemma cancel_inv_quiet:
  assumes "cancel_inv s" and "accepted_ids t = accepted_ids s" and "in_flight t = in_flight s"
    and "wk_cancels (ws_worker t) = wk_cancels (ws_worker s)"
  shows "cancel_inv t"
  using assms by (simp add: cancel_inv_def)

lemma cancel_inv_reserve:
  assumes "cancel_inv s" and "ws_handler s = HandlerPrepared env n"
  shows "cancel_inv (s\<lparr>ws_worker := reserve (request_id env) n (ws_worker s), ws_handler := HandlerReserved env n\<rparr>)"
    (is "cancel_inv ?t")
  unfolding cancel_inv_def
proof
  assume dist: "distinct (accepted_ids ?t)"
  have ids: "accepted_ids ?t = accepted_ids s @ [request_id env]"
    using assms(2) by (simp add: accepted_ids_def)
  have fl: "in_flight ?t = in_flight s @ [(request_id env, n)]"
    using assms(2) by (simp add: in_flight_def)
  have old: "distinct (map fst (in_flight s))" "fst ` set (in_flight s) \<subseteq> set (accepted_ids s)"
    "distinct (map fst (wk_cancels (ws_worker s)))" "set (wk_cancels (ws_worker s)) = set (in_flight s)"
    using assms(1) dist by (simp_all add: ids cancel_inv_def)
  have new: "request_id env \<notin> fst ` set (in_flight s)" using old(2) dist by (auto simp: ids)
  then have cs: "wk_cancels (ws_worker ?t) = wk_cancels (ws_worker s) @ [(request_id env, n)]"
    using old(4) by (simp add: reserve_def update_new)
  then show "distinct (map fst (in_flight ?t)) \<and> fst ` set (in_flight ?t) \<subseteq> set (accepted_ids ?t)
      \<and> distinct (map fst (wk_cancels (ws_worker ?t))) \<and> set (wk_cancels (ws_worker ?t)) = set (in_flight ?t)"
    unfolding fl ids cs using old new by auto
qed

lemma cancel_inv_finish:
  assumes "cancel_inv s" and run: "ws_running s = us @ a # vs"
  shows "cancel_inv (s\<lparr>ws_worker := release (request_id (as_env a)) (ws_worker s), ws_running := us @ vs,
         ws_closing := ws_closing s @ [as_number a]\<rparr>)" (is "cancel_inv ?t")
  unfolding cancel_inv_def
proof
  assume "distinct (accepted_ids ?t)"
  moreover have ids: "accepted_ids ?t = accepted_ids s" by (simp add: accepted_ids_def)
  ultimately have old: "distinct (map fst (in_flight s))" "fst ` set (in_flight s) \<subseteq> set (accepted_ids s)"
    "distinct (map fst (wk_cancels (ws_worker s)))" "set (wk_cancels (ws_worker s)) = set (in_flight s)"
    using assms(1) by (simp_all add: cancel_inv_def)
  let ?p = "(request_id (as_env a), as_number a)"
  obtain xs ys where fs: "in_flight s = xs @ ?p # ys" and ft: "in_flight ?t = xs @ ys"
    by (rule that [of "map (\<lambda>a. (request_id (as_env a), as_number a)) us"]) (simp_all add: in_flight_def run)
  have "{p \<in> set (in_flight s). fst p \<noteq> request_id (as_env a)} = set (xs @ ys)"
  proof -
    have "fst p \<noteq> request_id (as_env a)" if "p \<in> set (xs @ ys)" for p
    proof
      assume "fst p = request_id (as_env a)"
      then have "request_id (as_env a) \<in> fst ` set (xs @ ys)" using that by (metis imageI)
      then show False using old(1) by (simp add: fs image_Un)
    qed
    then show ?thesis by (auto simp: fs)
  qed
  then have "set (wk_cancels (ws_worker ?t)) = set (in_flight ?t)"
    using old(4) ft by (simp add: release_def set_delete)
  moreover have "distinct (map fst (in_flight ?t))" using old(1) by (simp add: fs ft)
  moreover have "fst ` set (in_flight ?t) \<subseteq> set (accepted_ids ?t)"
    using old(2) ids by (auto simp: fs ft)
  moreover have "distinct (map fst (wk_cancels (ws_worker ?t)))"
    using old(3) by (simp add: release_def distinct_delete)
  ultimately show "distinct (map fst (in_flight ?t)) \<and> fst ` set (in_flight ?t) \<subseteq> set (accepted_ids ?t)
      \<and> distinct (map fst (wk_cancels (ws_worker ?t))) \<and> set (wk_cancels (ws_worker ?t)) = set (in_flight ?t)"
    by blast
qed

lemma cancel_inv_step:
  assumes "cancel_inv s" and "worker_step E e s = Some t"
  shows "cancel_inv t"
  using assms(2)
proof (cases rule: worker_step_cases)
  case (deliver raw)
  then show ?thesis
    by (intro cancel_inv_quiet [OF assms(1)]) (simp_all add: accepted_ids_def in_flight_def)
next
  case (assign raw)
  have "accepted_ids t = accepted_ids s \<and> in_flight t = in_flight s \<and> ws_worker t = ws_worker s"
    unfolding assign(3) using assign(2)
    by (cases rule: admit_cases [of E raw "s\<lparr>ws_handler := HandlerIdle\<rparr>"])
      (simp_all add: accepted_id_not_accepted, simp_all add: accepted_ids_def in_flight_def)
  then show ?thesis by (intro cancel_inv_quiet [OF assms(1)]) simp_all
next
  case (run us a vs r p)
  then show ?thesis
    by (intro cancel_inv_quiet [OF assms(1)]) (simp_all add: accepted_ids_def in_flight_def)
next
  case (prepare subOk flushOk env)
  have "accepted_ids t = accepted_ids s \<and> in_flight t = in_flight s \<and> ws_worker t = ws_worker s"
    unfolding prepare(3) using prepare(2)
    by (cases rule: prepareStep_cases [OF prepare(2), of E subOk flushOk])
      (auto simp: accepted_id_not_accepted, auto simp: accepted_ids_def in_flight_def)
  then show ?thesis by (intro cancel_inv_quiet [OF assms(1)]) simp_all
next
  case (reserve env n)
  then show ?thesis using cancel_inv_reserve [OF assms(1)] by simp
next
  case (start env n)
  then show ?thesis
    by (intro cancel_inv_quiet [OF assms(1)]) (simp_all add: accepted_ids_def in_flight_def)
next
  case (finish us a vs)
  then show ?thesis using cancel_inv_finish [OF assms(1)] by simp
next
  case (close us n vs)
  then show ?thesis
    by (intro cancel_inv_quiet [OF assms(1)]) (simp_all add: accepted_ids_def in_flight_def)
next
  case (drain d p as)
  then show ?thesis
    by (intro cancel_inv_quiet [OF assms(1)]) (simp_all add: accepted_ids_def in_flight_def SetDraining_def)
qed

lemma cancel_inv_reach:
  assumes "worker_reach E s t" and "cancel_inv s"
  shows "cancel_inv t"
  using assms by (induction rule: worker_reach.induct) (auto intro: cancel_inv_step)

lemma cancel_inv_start: "wk_cancels w = [] \<Longrightarrow> cancel_inv (worker_start w)"
  by (simp add: cancel_inv_def worker_start_def in_flight_def)

section \<open>Shutdown\<close>

definition shut_down :: "worker_action list \<Rightarrow> worker_state \<Rightarrow> bool" where
  "shut_down as s \<longleftrightarrow> ws_serve s = Returned \<and> ws_handler s = HandlerIdle \<and> ws_running s = []
     \<and> ws_closing s = [] \<and> ws_log s = as"

lemma shut_down_step:
  assumes "shut_down as s" and "worker_step E e s = Some t"
  shows "shut_down as t"
  using assms by (cases e) (auto simp: shut_down_def)

lemma shut_down_reach:
  assumes "worker_reach E s t" and "shut_down as s"
  shows "shut_down as t"
  using assms by (induction rule: worker_reach.induct) (auto intro: shut_down_step)

section \<open>Runs\<close>

lemma worker_reach_trans: "worker_reach E t u \<Longrightarrow> worker_reach E s t \<Longrightarrow> worker_reach E s u"
  by (induction rule: worker_reach.induct) (auto intro: worker_reach_step)

lemma worker_run_reach: "worker_run E es s = Some t \<Longrightarrow> worker_reach E s t"
proof (induction es arbitrary: s)
  case (Cons e es)
  then obtain u where "worker_step E e s = Some u" and "worker_run E es u = Some t"
    by (auto split: option.splits)
  then show ?case
    using Cons.IH worker_reach_trans worker_reach_step [OF worker_reach_refl] by blast
qed (auto intro: worker_reach_refl)

section \<open>Properties\<close>

lemma NewWorker_Inr:
  assumes "NewWorker uni opts = Inr w"
  shows "wk_active w = 0" "wk_cancels w = []" "\<not> wk_draining w" "wk_supportedModes w \<noteq> []"
    "wk_maxConcurrency w = wo_MaxConcurrency opts" "ValidateSubjectToken uni (wk_sessionID w) = None"
  using assms by (auto simp: NewWorker_def Let_def split: if_splits option.splits)

definition sample_opts :: WorkerOptions where
  "sample_opts =
     \<lparr>wo_HasConn = True, wo_HasExecutor = True,
      wo_Identity = \<lparr>id_WorkerID = ''worker-1'', id_CredentialID = [], id_ExecutorType = [], id_PrivateKey = []\<rparr>,
      wo_SessionID = ''s_7'', wo_MaxConcurrency = 1, wo_SupportedModes = []\<rparr>"

definition sample_worker :: Worker where
  "sample_worker =
     \<lparr>wk_id = wo_Identity sample_opts, wk_sessionID = ''s_7'', wk_maxConcurrency = 1,
      wk_supportedModes = [REQUEST_MODE_DECODED_HTTP], wk_active = 0, wk_draining = False, wk_cancels = []\<rparr>"

definition sample_assign :: Envelope where
  "sample_assign = empty_envelope\<lparr>request_id := ''r2'', env_payload := Some (Envelope_AssignRequest
     \<lparr>ar_mode = REQUEST_MODE_DECODED_HTTP, ar_attempt = 1, ar_deadline_unix_ms = 0,
      expected_upload_bytes = 0, initial_upload_credit_bytes = 0, initial_download_credit_bytes = 0\<rparr>)\<rparr>"

definition sample_env :: worker_env where
  "sample_env = \<lparr>we_tables = no_tables, we_unmarshal = (\<lambda>_. Some sample_assign), we_valid = (\<lambda>_. True),
     we_requests = \<lparr>rq_bodyRefs = None, rq_hasTunnels = False\<rparr>\<rparr>"

definition sample_accept :: "worker_event list" where
  "sample_accept = [EvAssign [], EvAdmit, EvPrepare True True, EvReserve, EvStart]"

lemma sample_new: "NewWorker no_tables sample_opts = Inr sample_worker"
  by (simp add: NewWorker_def sample_opts_def sample_worker_def)

lemma sample_subject:
  "StreamSubject no_tables ''r2'' ''worker-1'' ''s_7'' DirectionControlToExecutor
     = Inr ''straw.v1.req.r2.worker-1.s_7.c2e''"
  "StreamSubject no_tables ''r2'' ''worker-1'' ''s_7'' DirectionExecutorToControl
     = Inr ''straw.v1.req.r2.worker-1.s_7.e2c''"
  by (simp_all add: StreamSubject_def direction_text_def)

lemmas worker_eval = sample_env_def sample_accept_def sample_worker_def sample_opts_def worker_start_def
  admitStep_def admit_def UnmarshalEnvelope_def GetAssignRequest_def sample_assign_def empty_envelope_def
  EvaluateAssignment_def snapshotCapacity_def supportsMode_def hasCapacity_def List.member_iff
  prepareStep_def prepareRequestStream_def sample_subject reserveStep_def reserve_def startStep_def act_def
  requestContext_def release_def remove_at_def SetDraining_def cancelsInFlight_def

definition sample_running :: worker_state where
  "sample_running =
     \<lparr>ws_worker = sample_worker\<lparr>wk_active := 1, wk_cancels := [(''r2'', 0)]\<rparr>, ws_next = 1,
      ws_handler = HandlerIdle,
      ws_running = [\<lparr>as_number = 0, as_env = sample_assign, as_context = WithCancel, as_run = Starting\<rparr>], ws_closing = [],
      ws_serve = Serving,
      ws_log = [ActSubscribe 0 ''straw.v1.req.r2.worker-1.s_7.c2e'', ActFlush,
        ActReply (Some sample_assign) ASSIGN_ACK_ACCEPTED]\<rparr>"

lemma sample_run: "worker_run sample_env sample_accept (worker_start sample_worker) = Some sample_running"
  by (simp add: worker_eval sample_running_def)

text \<open>
  C1: The concurrency limit holds in every interleaving. Although the capacity is read and the place
  is taken under two separate locks, a worker with a limit never runs more requests than the limit,
  its counter is the number of requests running or just reserved, and it never wraps.
\<close>

theorem concurrency_limit_kept:
  assumes "NewWorker uni opts = Inr w" and "worker_run E es (worker_start w) = Some s"
  shows "wk_active (ws_worker s) = of_nat (length (ws_running s) + reserved s)
    \<and> (wo_MaxConcurrency opts \<noteq> 0 \<longrightarrow>
         unat (ActiveRequests (ws_worker s)) = length (ws_running s) + reserved s
         \<and> length (ws_running s) + reserved s \<le> unat (wo_MaxConcurrency opts))"
proof -
  have inv: "limit_inv (wo_MaxConcurrency opts) s"
    using limit_inv_reach [OF worker_run_reach [OF assms(2)]] limit_inv_start [of w] NewWorker_Inr [OF assms(1)]
    by simp
  then have "length (ws_running s) + reserved s \<le> unat (wo_MaxConcurrency opts)" if "wo_MaxConcurrency opts \<noteq> 0"
    using that reserved_le_claimed [of s] by (auto simp: limit_inv_def)
  then show ?thesis using inv limit_inv_active [OF inv] by (auto simp: ActiveRequests_def limit_inv_def)
qed

theorem concurrency_limit_kept_witness:
  "unat (ActiveRequests (ws_worker sample_running)) = 1"
  using concurrency_limit_kept [OF sample_new sample_run]
  by (simp add: sample_opts_def sample_running_def reserved_def)

text \<open>
  C8: Every assignment is answered exactly once: in every run the replies sent, together with the
  assignment the handler is still working on, are as many as the assignments delivered.
\<close>

theorem each_assignment_answered_once:
  assumes "worker_run E es (worker_start w) = Some s"
  shows "length (filter is_reply (ws_log s)) + pending s = length (filter is_assign es)"
  using replies_run [OF assms] by (simp add: replies_def worker_start_def pending_def)

theorem each_assignment_answered_once_witness:
  "length (filter is_reply (ws_log sample_running)) + pending sample_running = 1"
  using each_assignment_answered_once [OF sample_run] by (simp add: sample_accept_def is_assign_def)

text \<open>
  C10: An assignment is accepted only after its stream is listened to: before every accepting reply
  the worker has subscribed to the request's control-to-executor subject and flushed, and has not
  unsubscribed; and as long as a request runs, its subscription stays open.
\<close>

theorem accepted_requests_have_open_stream:
  assumes "worker_run E es (worker_start w) = Some s"
  shows "accepts_open E w (ws_log s)
    \<and> (\<forall>a\<in>set (ws_running s). stream_open E w (as_env a) (as_number a) (ws_log s))"
proof -
  have "stream_inv E w s"
    using stream_inv_reach [OF worker_run_reach [OF assms] stream_inv_worker_start] .
  then show ?thesis by (fastforce simp: stream_inv_def held_def)
qed

theorem accepted_requests_have_open_stream_witness:
  "stream_open sample_env sample_worker sample_assign 0 (ws_log sample_running)"
  using accepted_requests_have_open_stream [OF sample_run] by (simp add: sample_running_def)

text \<open>
  C19: When the drain timeout abandons the requests in flight, it cancels the context of every one of
  them and of no other, provided the request ids accepted so far are distinct.
\<close>

theorem abandon_cancels_all_in_flight:
  assumes "NewWorker uni opts = Inr w" and "worker_run E es (worker_start w) = Some s"
    and "distinct (accepted_ids s)" and "worker_step E EvAbandon s = Some t"
  shows "\<exists>ns. ws_log t = ws_log s @ map ActCancel ns \<and> set ns = snd ` set (in_flight s)
    \<and> set (map as_number (ws_running s)) \<subseteq> set ns"
proof -
  have "cancel_inv s"
    using cancel_inv_reach [OF worker_run_reach [OF assms(2)]] cancel_inv_start NewWorker_Inr(2) [OF assms(1)] .
  then have "set (wk_cancels (ws_worker s)) = set (in_flight s)" using assms(3) by (simp add: cancel_inv_def)
  then have "set (cancelsInFlight (ws_worker s)) = snd ` set (in_flight s)" by (simp add: cancelsInFlight_def)
  moreover have "ws_log t = ws_log s @ map ActCancel (cancelsInFlight (ws_worker s))"
    using assms(4) by (auto split: if_splits)
  moreover have "set (map as_number (ws_running s)) \<subseteq> snd ` set (in_flight s)"
    by (force simp: in_flight_def)
  ultimately show ?thesis by (intro exI [of _ "cancelsInFlight (ws_worker s)"]) simp
qed

definition sample_unsubscribed :: worker_state where
  "sample_unsubscribed = sample_running\<lparr>ws_serve := Unsubscribed,
     ws_worker := SetDraining True (ws_worker sample_running)\<rparr>"

lemma sample_run_unsubscribed:
  "worker_run sample_env (sample_accept @ [EvStop, EvUnsubscribe]) (worker_start sample_worker)
     = Some sample_unsubscribed"
  by (simp add: run_steps_append sample_run) (simp add: sample_unsubscribed_def sample_running_def)

theorem abandon_cancels_all_in_flight_witness:
  "\<exists>ns t. worker_step sample_env EvAbandon sample_unsubscribed = Some t
     \<and> ws_log t = ws_log sample_unsubscribed @ map ActCancel ns \<and> set ns = {0}"
proof -
  have d: "distinct (accepted_ids sample_unsubscribed)"
    by (simp add: accepted_ids_def sample_unsubscribed_def sample_running_def)
  have s: "worker_step sample_env EvAbandon sample_unsubscribed
      = Some (act [ActCancel 0] (sample_unsubscribed\<lparr>ws_serve := Abandoned\<rparr>))"
    by (simp add: sample_unsubscribed_def sample_running_def cancelsInFlight_def SetDraining_def)
  have f: "snd ` set (in_flight sample_unsubscribed) = {0}"
    by (simp add: in_flight_def sample_unsubscribed_def sample_running_def)
  from abandon_cancels_all_in_flight [OF sample_new sample_run_unsubscribed d s] s
  show ?thesis unfolding f by blast
qed

text \<open>
  C20: If no assignment is being handled when \<open>Serve\<close> returns, the worker is quiet from then on:
  nothing runs, the active count is zero, and whatever happens later adds no action.
\<close>

theorem serve_return_is_final:
  assumes "NewWorker uni opts = Inr w" and "worker_run E es (worker_start w) = Some s"
    and "ws_handler s = HandlerIdle" and "worker_step E EvReturn s = Some t"
    and "worker_run E fs t = Some u"
  shows "ws_running u = [] \<and> ActiveRequests (ws_worker u) = 0 \<and> ws_log u = ws_log s"
proof -
  have "shut_down (ws_log s) t" using assms(3,4) by (auto simp: shut_down_def split: if_splits)
  then have u: "shut_down (ws_log s) u" by (rule shut_down_reach [OF worker_run_reach [OF assms(5)]])
  have "worker_run E (es @ EvReturn # fs) (worker_start w) = Some u"
    using assms(2,4,5) by (simp add: run_steps_append del: worker_step.simps)
  then have "limit_inv (wk_maxConcurrency w) u"
    using limit_inv_reach [OF worker_run_reach] limit_inv_start NewWorker_Inr(1) [OF assms(1)] by blast
  then show ?thesis using u by (simp add: shut_down_def limit_inv_def reserved_def ActiveRequests_def)
qed

theorem serve_return_is_final_witness:
  "\<exists>s t. worker_run sample_env (sample_accept @ [EvStop, EvUnsubscribe, EvRun 0 (RqBegin 0),
       EvRun 0 (RqBody BodyFramesClosed), EvFinish 0, EvClose 0])
       (worker_start sample_worker) = Some s \<and> worker_step sample_env EvReturn s = Some t
     \<and> ws_running t = [] \<and> ActiveRequests (ws_worker t) = 0"
proof -
  let ?es = "sample_accept @ [EvStop, EvUnsubscribe, EvRun 0 (RqBegin 0),
       EvRun 0 (RqBody BodyFramesClosed), EvFinish 0, EvClose 0]"
  obtain s where s: "worker_run sample_env ?es (worker_start sample_worker) = Some s"
      "ws_handler s = HandlerIdle" "ws_serve s = Unsubscribed" "ws_running s = []" "ws_closing s = []"
    by (simp add: run_steps_append sample_run sample_running_def remove_at_def act_def readStep_def afterBody_def
        complete_def newRequestBodyState_def bodyStop_def)
  then have t: "worker_step sample_env EvReturn s = Some (s\<lparr>ws_serve := Returned\<rparr>)" by simp
  have "worker_run sample_env [] (s\<lparr>ws_serve := Returned\<rparr>) = Some (s\<lparr>ws_serve := Returned\<rparr>)" by simp
  from serve_return_is_final [OF sample_new s(1,2) t this] s(1) t show ?thesis by blast
qed

text \<open>
  The hypothesis of the previous property is needed. \<open>Unsubscribe\<close> does not wait for the callback
  that is running, so an assignment read just before the stop can be accepted, and its request
  started, after \<open>Serve\<close> has returned and while the worker is draining.
\<close>

lemma accepted_after_return:
  "\<exists>es s. worker_run sample_env (EvAssign [] # EvAdmit # EvStop # EvUnsubscribe # EvReturn # es)
       (worker_start sample_worker) = Some s
     \<and> ws_serve s = Returned \<and> Draining (ws_worker s) \<and> length (ws_running s) = 1
     \<and> ActReply (Some sample_assign) ASSIGN_ACK_ACCEPTED \<in> set (ws_log s)"
  by (rule exI [of _ "[EvPrepare True True, EvReserve, EvStart]"]) (simp add: worker_eval Draining_def)

text \<open>
  C21: The whole handler is one uninterrupted run of the steps: started idle on a listening worker,
  \<open>handleAssign\<close> is what a sequence of steps with this one delivery does, it ends idle, it adds
  exactly one reply, and it raises the active count exactly when that reply is an acceptance.
\<close>

theorem handle_assign_is_a_run:
  assumes "ws_handler s = HandlerIdle" and "ws_serve s = Serving"
  shows "\<exists>es. worker_run E es s = Some (handleAssign E raw subOk flushOk s) \<and> filter is_assign es = [EvAssign raw]
    \<and> ws_handler (handleAssign E raw subOk flushOk s) = HandlerIdle
    \<and> (\<exists>as env code. ws_log (handleAssign E raw subOk flushOk s) = ws_log s @ as @ [ActReply env code]
         \<and> filter is_reply as = []
         \<and> wk_active (ws_worker (handleAssign E raw subOk flushOk s))
             = wk_active (ws_worker s) + (if code = ASSIGN_ACK_ACCEPTED then 1 else 0))"
proof -
  have idle: "s\<lparr>ws_handler := HandlerIdle\<rparr> = s" using assms(1) by simp
  have go: "worker_run E (EvAssign raw # EvAdmit # es) s = worker_run E es (admit E raw s)" for es
    using assms by (simp add: admitStep_def idle)
  have "\<exists>es. worker_run E es (admit E raw s) = Some (handleAssign E raw subOk flushOk s) \<and> filter is_assign es = []
    \<and> ws_handler (handleAssign E raw subOk flushOk s) = HandlerIdle
    \<and> (\<exists>as env code. ws_log (handleAssign E raw subOk flushOk s) = ws_log s @ as @ [ActReply env code]
         \<and> filter is_reply as = []
         \<and> wk_active (ws_worker (handleAssign E raw subOk flushOk s))
             = wk_active (ws_worker s) + (if code = ASSIGN_ACK_ACCEPTED then 1 else 0))"
  proof (cases rule: admit_cases [of E raw s])
    case (accept env)
    have h: "ws_handler (s\<lparr>ws_handler := HandlerAdmitted env\<rparr>) = HandlerAdmitted env" by simp
    show ?thesis
    proof (cases rule: prepareStep_cases [OF h, of E subOk flushOk, case_names fail ok])
      case (fail as)
      then show ?thesis using assms accept
        by (intro exI [of _ "[EvPrepare subOk flushOk]"])
          (auto simp: handleAssign_def reserveStep_def startStep_def is_assign_def)
    next
      case (ok c2e)
      then show ?thesis using assms accept
        by (intro exI [of _ "[EvPrepare subOk flushOk, EvReserve, EvStart]"])
          (auto simp: handleAssign_def reserveStep_def startStep_def reserve_def is_assign_def)
    qed
  qed (use assms in \<open>auto intro!: exI [of _ "[]"]
         simp: handleAssign_def prepareStep_def reserveStep_def startStep_def is_assign_def\<close>)
  then obtain es where "worker_run E es (admit E raw s) = Some (handleAssign E raw subOk flushOk s)"
      "filter is_assign es = []" and rest: "ws_handler (handleAssign E raw subOk flushOk s) = HandlerIdle
    \<and> (\<exists>as env code. ws_log (handleAssign E raw subOk flushOk s) = ws_log s @ as @ [ActReply env code]
         \<and> filter is_reply as = []
         \<and> wk_active (ws_worker (handleAssign E raw subOk flushOk s))
             = wk_active (ws_worker s) + (if code = ASSIGN_ACK_ACCEPTED then 1 else 0))" by blast
  then have "worker_run E (EvAssign raw # EvAdmit # es) s = Some (handleAssign E raw subOk flushOk s)
      \<and> filter is_assign (EvAssign raw # EvAdmit # es) = [EvAssign raw]"
    unfolding go by (simp add: is_assign_def)
  with rest show ?thesis by blast
qed

theorem handle_assign_is_a_run_witness:
  "\<exists>es. worker_run sample_env es (worker_start sample_worker)
       = Some (handleAssign sample_env [] True True (worker_start sample_worker))
     \<and> filter is_assign es = [EvAssign []]"
  using handle_assign_is_a_run [of "worker_start sample_worker" sample_env "[]" True True]
  by (simp add: worker_start_def) blast

end
