(* ===== verification/Decoded_Safety.thy ===== *)
theory Decoded_Safety
  imports Decoded_Run
begin

text \<open>
  What holds of a decoded request in every interleaving of the executor and the main loop: the
  download credit, the numbers of the frames sent, what is published at the end, and when the
  result is received at all.
\<close>

section \<open>The frames the main loop reads\<close>

fun main_arrivals :: "decoded_event list \<Rightarrow> arrival list" where
  "main_arrivals [] = []"
| "main_arrivals (MainFrame now frame # es) = (now, frame) # main_arrivals es"
| "main_arrivals (_ # es) = main_arrivals es"

text \<open>The frames accepted during a run that starts with the validator \<open>v\<close>.\<close>

definition main_frames :: "streamValidator \<Rightarrow> decoded_event list \<Rightarrow> StreamFrame list" where
  "main_frames v es = frames_of (gate_passed validate_step v (main_arrivals es))"

definition download_credit :: "StreamFrame \<Rightarrow> nat" where
  "download_credit f = (case GetCredit f of None \<Rightarrow> 0 | Some c \<Rightarrow> unat (download_credit_bytes c))"

definition is_credit :: "StreamFrame \<Rightarrow> bool" where
  "is_credit f \<longleftrightarrow> GetCredit f \<noteq> None"

definition cancel_reasons :: "StreamFrame list \<Rightarrow> string set" where
  "cancel_reasons fs = {r. \<exists>f\<in>set fs. GetCancel f = Some r}"

lemma main_arrivals_append [simp]: "main_arrivals (es @ fs) = main_arrivals es @ main_arrivals fs"
  by (induction es rule: main_arrivals.induct) simp_all

section \<open>The steps\<close>

lemma execChunk_Some:
  assumes "execChunk a off ds s = Some t"
  obtains n g' es where "takeAvailable (ds_gate s) (min (length ds) responseFrameDataBytes) [] = (CreditReady, n, g', es)"
    and "t = s\<lparr>ds_gate := g', ds_seq := ds_seq s + 1,
           ds_sent := ds_sent s @ [data_frame (ds_seq s + 1) a off (take n ds)],
           ds_exec := (if drop n ds = [] then ExecRunning else ExecSending a (off + ulen (take n ds)) (drop n ds))\<rparr>"
proof -
  obtain st n g' es where r: "takeAvailable (ds_gate s) (min (length ds) responseFrameDataBytes) [] = (st, n, g', es)"
    by (metis prod_cases4)
  with assms have "st = CreditReady" by (cases st) (simp_all add: execChunk_def)
  then show ?thesis using assms r by (intro that [of n g' es]) (auto simp: execChunk_def Let_def)
qed

text \<open>What a frame does to the main loop, by the outcome of the validator.\<close>

lemma mainFrame_cases:
  obtains (refused) "\<not> fst (validate_step (ds_validator s) (now, frame))" "mainFrame now frame s = s"
  | (other) f v' where "frame = Some f" "validate_step (ds_validator s) (now, frame) = (True, v')"
      "GetCredit f = None" "GetCancel f = None" "mainFrame now frame s = s\<lparr>ds_validator := v'\<rparr>"
  | (granted) f v' c q where "frame = Some f" "validate_step (ds_validator s) (now, frame) = (True, v')"
      "GetCredit f = Some c" "GetCancel f = None" "grant (ds_gate s) (download_credit_bytes c) (ds_grants s) = Some q"
      "mainFrame now frame s = s\<lparr>ds_validator := v', ds_grants := q\<rparr>"
  | (full) f v' c where "frame = Some f" "validate_step (ds_validator s) (now, frame) = (True, v')"
      "GetCredit f = Some c" "GetCancel f = None" "grant (ds_gate s) (download_credit_bytes c) (ds_grants s) = None"
      "mainFrame now frame s = s\<lparr>ds_validator := v', ds_main := MainGranting (download_credit_bytes c)\<rparr>"
  | (cancel) f v' reason where "frame = Some f" "validate_step (ds_validator s) (now, frame) = (True, v')"
      "GetCredit f = None" "GetCancel f = Some reason"
      "mainFrame now frame s = s\<lparr>ds_validator := v', ds_main := MainCancelled reason, ds_ctxDone := True\<rparr>"
proof -
  obtain out v' where a: "accept now (ds_validator s) frame = (out, v')" by fastforce
  have step: "validate_step (ds_validator s) (now, frame) = (out = frameAccepted, v')"
    using a by (simp add: validate_step_def)
  show ?thesis
  proof (cases "out = frameAccepted")
    case False
    then have "v' = ds_validator s"
      using validator.reject_keeps [of "ds_validator s" "(now, frame)"] step by simp
    with False show ?thesis using a step by (intro refused) (simp_all add: mainFrame_def)
  next
    case True
    with a obtain f where f: "frame = Some f" by (cases frame) (auto simp: accept_None)
    show ?thesis
    proof (cases "GetCredit f")
      case (Some c)
      then have "sf_payload f = Some (StreamFrame_Credit c)" by (simp add: wire_simps)
      then show ?thesis using True f a step Some
        by (cases "grant (ds_gate s) (download_credit_bytes c) (ds_grants s)")
          (auto simp: mainFrame_def GetCancel_def intro: granted full)
    next
      case None
      then show ?thesis using True f a step
        by (cases "GetCancel f")
          (auto simp: mainFrame_def GetCancel_def GetCredit_def split: option.splits Payload.splits
            intro: other cancel)
    qed
  qed
qed

lemma decoded_step_cases:
  assumes "decoded_step e s = Some t"
  obtains (control) f where "e = ExecSend f" "ds_exec s = ExecRunning" "GetData f = None"
      "t = s\<lparr>ds_seq := ds_seq s + 1, ds_sent := ds_sent s @ [f\<lparr>stream_seq := ds_seq s + 1\<rparr>]\<rparr>"
  | (executor) x where "\<forall>n f. e \<noteq> MainFrame n f" "\<forall>r. e \<noteq> ExecReturn r" "ds_exec s \<noteq> ExecReturned"
      "x \<noteq> ExecReturned" "t = s\<lparr>ds_exec := x\<rparr>"
  | (chunk) a off ds n g' es where "e = ExecChunk" "ds_exec s = ExecSending a off ds"
      "takeAvailable (ds_gate s) (min (length ds) responseFrameDataBytes) [] = (CreditReady, n, g', es)"
      "t = s\<lparr>ds_gate := g', ds_seq := ds_seq s + 1,
           ds_sent := ds_sent s @ [data_frame (ds_seq s + 1) a off (take n ds)],
           ds_exec := (if drop n ds = [] then ExecRunning else ExecSending a (off + ulen (take n ds)) (drop n ds))\<rparr>"
  | (receive) g b q where "e = ExecGrant" "ds_gate s = Some g" "gate_credit g = 0" "ds_grants s = b # q"
      "t = s\<lparr>ds_gate := Some (g\<lparr>gate_credit := b\<rparr>), ds_grants := q\<rparr>"
  | (return) fs where "e = ExecReturn fs" "ds_exec s = ExecRunning"
      "t = s\<lparr>ds_exec := ExecReturned, ds_resultCh := Some fs\<rparr>"
  | (frame) now f where "e = MainFrame now f" "ds_main s = MainWaiting" "t = mainFrame now f s"
  | (unblocked) b q where "e = MainGrantGoes" "ds_main s = MainGranting b"
      "grant (ds_gate s) b (ds_grants s) = Some q" "t = s\<lparr>ds_grants := q, ds_main := MainWaiting\<rparr>"
  | (result) r where "e = MainResult" "ds_main s = MainWaiting \<or> (\<exists>reason. ds_main s = MainCancelled reason)"
      "ds_resultCh s = Some r"
      "t = s\<lparr>ds_main := MainDone, ds_resultCh := None, ds_final := Some (finalFrames (ds_main s) r)\<rparr>"
  | (deadline) "e = CtxDeadline" "t = s\<lparr>ds_ctxDone := True\<rparr>"
proof (cases e)
  case (ExecSend f)
  show ?thesis
  proof (cases "GetData f")
    case None
    then show ?thesis using assms ExecSend by (intro control) (auto simp: execSend_def split: if_splits)
  next
    case (Some d)
    then show ?thesis using assms ExecSend
      by (intro executor [of "if df_data d = [] then ds_exec s
            else ExecSending (sf_attempt f) (df_offset d) (df_data d)"])
        (auto simp: execSend_def split: if_splits)
  qed
next
  case ExecChunk
  with assms obtain a off ds where x: "ds_exec s = ExecSending a off ds" "execChunk a off ds s = Some t"
    by (auto split: exec_state.splits)
  show ?thesis by (rule execChunk_Some [OF x(2)], rule chunk [OF ExecChunk x(1)])
next
  case ExecGrant
  with assms show ?thesis
    by (auto split: exec_state.splits option.splits list.splits if_splits intro: receive)
next
  case ExecGiveUp
  with assms show ?thesis
    by (auto split: exec_state.splits option.splits if_splits intro: executor)
next
  case (ExecReturn fs)
  with assms show ?thesis by (intro return) (auto split: if_splits)
next
  case (MainFrame now f)
  with assms show ?thesis by (intro frame) (auto split: if_splits)
next
  case MainGrantGoes
  with assms show ?thesis
    by (auto split: main_state.splits option.splits intro: unblocked)
next
  case MainResult
  with assms show ?thesis by (auto split: main_state.splits option.splits intro: result)
next
  case CtxDeadline
  with assms show ?thesis by (intro deadline) auto
qed

text \<open>A chunk is paid for by the gate, byte by byte.\<close>

definition gate_left :: "responseCreditGate option \<Rightarrow> nat" where
  "gate_left g = (case g of None \<Rightarrow> 0 | Some gt \<Rightarrow> unat (gate_credit gt))"

lemma gate_paid:
  assumes "takeAvailable g n [] = (CreditReady, taken, g', es)" and "n < 2 ^ 64"
  shows "(g' = None \<longleftrightarrow> g = None) \<and> (g \<noteq> None \<longrightarrow> gate_left g' + taken = gate_left g)"
proof (cases g)
  case None
  with assms show ?thesis by (auto simp: takeAvailable_def)
next
  case (Some gt)
  have "gate_budget g [] = enat taken + gate_budget g' es" by (rule takeAvailable_budget [OF assms])
  moreover obtain c where "waitForCredit (gate_credit gt) [] = (CreditReady, c, es)"
      and g': "g' = Some (gt\<lparr>gate_credit := c - (if c < of_nat n then 1 else of_nat n)\<rparr>)"
    using takeAvailable_ready_Some [OF assms(1) [unfolded Some]] by metis
  moreover from this(1) have "es = []" by (auto split: if_splits)
  ultimately show ?thesis using Some by (simp add: gate_budget_def gate_left_def)
qed

lemma gate_taken:
  assumes "takeAvailable g n [] = (CreditReady, taken, g', es)"
  shows "taken \<le> n"
proof (cases "n = 0")
  case True
  with assms show ?thesis
    by (auto simp: takeAvailable_def Let_def uint64FromInt_def split: option.splits prod.splits wait_status.splits if_splits)
next
  case False
  with takeAvailable_bounds [OF assms] show ?thesis by simp
qed

lemma chunk_paid:
  assumes "takeAvailable g (min (length ds) responseFrameDataBytes) [] = (CreditReady, n, g', es)"
  shows "(g' = None \<longleftrightarrow> g = None) \<and> (g \<noteq> None \<longrightarrow> gate_left g' + length (take n ds) = gate_left g)"
  using gate_paid [OF assms] gate_taken [OF assms] by (simp add: responseFrameDataBytes_def)

section \<open>Credit and numbers\<close>

lemma main_frames_Nil [simp]: "main_frames v [] = []"
  by (simp add: main_frames_def)

lemma main_frames_other: "\<forall>n f. e \<noteq> MainFrame n f \<Longrightarrow> main_frames v (es @ [e]) = main_frames v es"
  by (cases e) (simp_all add: main_frames_def)

lemma main_frames_frame:
  "main_frames v (es @ [MainFrame now f]) = main_frames v es
     @ (if fst (validate_step (gate_run validate_step v (main_arrivals es)) (now, f)) then [the f] else [])"
  by (simp add: main_frames_def gate_passed_append)

lemma main_validator:
  assumes "decoded_run es s = Some t"
  shows "ds_validator t = gate_run validate_step (ds_validator s) (main_arrivals es)"
proof (rule run_steps_invariant [OF assms])
  fix ds u e u'
  assume u: "ds_validator u = gate_run validate_step (ds_validator s) (main_arrivals ds)"
    and step: "decoded_step e u = Some u'"
  show "ds_validator u' = gate_run validate_step (ds_validator s) (main_arrivals (ds @ [e]))"
    using step
  proof (cases rule: decoded_step_cases)
    case (frame now f)
    have "ds_validator (mainFrame now f u) = snd (validate_step (ds_validator u) (now, f))"
      by (cases rule: mainFrame_cases [of u now f]) (simp_all add: validator.reject_keeps)
    then show ?thesis using frame u by (simp add: gate_run_append)
  next
    case (executor x)
    then show ?thesis using u by (cases e) simp_all
  qed (use u in simp_all)
qed simp

definition granting :: "main_state \<Rightarrow> nat" where
  "granting m = (case m of MainGranting b \<Rightarrow> unat b | _ \<Rightarrow> 0)"

lemma granting_simps [simp]:
  "granting MainWaiting = 0" "granting (MainGranting b) = unat b" "granting (MainCancelled r) = 0"
  "granting MainDone = 0"
  by (simp_all add: granting_def)

definition credit_inv :: "streamValidator \<Rightarrow> u64 \<Rightarrow> decoded_event list \<Rightarrow> decoded_state \<Rightarrow> bool" where
  "credit_inv v c es s \<longleftrightarrow>
     (ds_gate s = None \<longleftrightarrow> c = 0)
     \<and> (c \<noteq> 0 \<longrightarrow>
          length (stream_bytes (ds_sent s)) + gate_left (ds_gate s) + sum_list (map unat (ds_grants s))
            + granting (ds_main s) = unat c + sum_list (map download_credit (main_frames v es)))"

lemma grant_Some:
  "grant (Some g) b q = Some q' \<Longrightarrow> sum_list (map unat q') = sum_list (map unat q) + unat b \<and> length q' \<le> Suc (length q)"
  by (auto simp: grant_def split: if_splits)

lemma frame_bytes_control: "GetData f = None \<Longrightarrow> frame_bytes (f\<lparr>stream_seq := n\<rparr>) = []"
  by (simp add: frame_bytes_def GetData_def split: option.splits Payload.splits)

lemma credit_inv_frame:
  assumes "credit_inv v c ds u" and "ds_main u = MainWaiting"
    and v: "ds_validator u = gate_run validate_step v (main_arrivals ds)"
  shows "credit_inv v c (ds @ [MainFrame now f]) (mainFrame now f u)"
proof (cases rule: mainFrame_cases [of u now f])
  case refused
  then show ?thesis using assms by (simp add: credit_inv_def main_frames_frame)
next
  case (other f' v')
  then show ?thesis using assms by (simp add: credit_inv_def main_frames_frame download_credit_def)
next
  case (granted f' v' cf q)
  show ?thesis
  proof (cases "ds_gate u")
    case None
    then show ?thesis using assms granted by (simp add: credit_inv_def)
  next
    case (Some g)
    then show ?thesis using assms granted grant_Some [of g "download_credit_bytes cf" "ds_grants u" q]
      by (auto simp: credit_inv_def main_frames_frame download_credit_def)
  qed
next
  case (full f' v' cf)
  then show ?thesis using assms by (simp add: credit_inv_def main_frames_frame download_credit_def)
next
  case (cancel f' v' reason)
  then show ?thesis using assms by (simp add: credit_inv_def main_frames_frame download_credit_def)
qed

lemma credit_inv_step:
  assumes inv: "credit_inv v c ds u" and step: "decoded_step e u = Some u'"
    and v: "ds_validator u = gate_run validate_step v (main_arrivals ds)"
  shows "credit_inv v c (ds @ [e]) u'"
  using step
proof (cases rule: decoded_step_cases)
  case (control f)
  then show ?thesis using inv
    by (simp add: credit_inv_def main_frames_other stream_bytes_def frame_bytes_control)
next
  case (chunk a off bs n g' es)
  then show ?thesis using inv chunk_paid [OF chunk(3)]
    by (auto simp: credit_inv_def main_frames_other)
next
  case (receive g b q)
  then show ?thesis using inv by (auto simp: credit_inv_def main_frames_other gate_left_def)
next
  case (frame now f)
  then show ?thesis using credit_inv_frame [OF inv _ v] by simp
next
  case (unblocked b q)
  show ?thesis
  proof (cases "ds_gate u")
    case None
    then show ?thesis using inv unblocked by (simp add: credit_inv_def)
  next
    case (Some g)
    then show ?thesis using inv unblocked grant_Some [of g b "ds_grants u" q]
      by (auto simp: credit_inv_def main_frames_other)
  qed
next
  case (result r)
  then show ?thesis using inv by (auto simp: credit_inv_def main_frames_other)
qed (use inv in \<open>simp_all add: credit_inv_def main_frames_other\<close>)

lemma credit_inv_run:
  assumes "decoded_run es (startDecodedExecution req v) = Some s"
  shows "credit_inv v (initial_download_credit_bytes req) es s"
proof (rule run_steps_invariant [OF assms])
  show "credit_inv v (initial_download_credit_bytes req) [] (startDecodedExecution req v)"
    by (simp add: credit_inv_def startDecodedExecution_def newResponseCreditGate_def gate_left_def)
next
  fix ds u e u'
  assume r: "decoded_run ds (startDecodedExecution req v) = Some u"
    and "credit_inv v (initial_download_credit_bytes req) ds u" and "decoded_step e u = Some u'"
  then show "credit_inv v (initial_download_credit_bytes req) (ds @ [e]) u'"
    using main_validator [OF r] by (intro credit_inv_step) (simp_all add: startDecodedExecution_def)
qed

lemma sent_numbered:
  assumes "decoded_run es (startDecodedExecution req v) = Some s"
  shows "numbered 0 (ds_sent s) \<and> ds_seq s = of_nat (length (ds_sent s))"
proof (rule run_steps_invariant [OF assms])
  fix ds u e u'
  assume inv: "numbered 0 (ds_sent u) \<and> ds_seq u = of_nat (length (ds_sent u))" and step: "decoded_step e u = Some u'"
  show "numbered 0 (ds_sent u') \<and> ds_seq u' = of_nat (length (ds_sent u'))"
    using step
  proof (cases rule: decoded_step_cases)
    case (frame now f)
    then show ?thesis using inv by (cases rule: mainFrame_cases [of u now f]) simp_all
  qed (use inv in \<open>simp_all add: numbered_append\<close>)
qed (simp add: startDecodedExecution_def)

section \<open>Blocking\<close>

definition credit_frames :: "streamValidator \<Rightarrow> decoded_event list \<Rightarrow> nat" where
  "credit_frames v es = length (filter is_credit (main_frames v es))"

definition blocks :: "main_state \<Rightarrow> nat" where
  "blocks m = (case m of MainGranting b \<Rightarrow> 1 | _ \<Rightarrow> 0)"

lemma blocks_simps [simp]:
  "blocks MainWaiting = 0" "blocks (MainGranting b) = 1" "blocks (MainCancelled r) = 0" "blocks MainDone = 0"
  by (simp_all add: blocks_def)

definition block_inv :: "streamValidator \<Rightarrow> decoded_event list \<Rightarrow> decoded_state \<Rightarrow> bool" where
  "block_inv v es s \<longleftrightarrow>
     length (ds_grants s) + blocks (ds_main s) \<le> credit_frames v es
     \<and> (blocks (ds_main s) = 1 \<longrightarrow> streamFrameChannelBuffer < credit_frames v es)"

lemma credit_frames_other: "\<forall>n f. e \<noteq> MainFrame n f \<Longrightarrow> credit_frames v (es @ [e]) = credit_frames v es"
  by (simp add: credit_frames_def main_frames_other)

lemma grant_length: "grant g b q = Some q' \<Longrightarrow> length q' \<le> Suc (length q)"
  by (auto simp: grant_def split: if_splits)

lemma grant_None: "grant g b q = None \<Longrightarrow> streamFrameChannelBuffer \<le> length q"
  by (auto simp: grant_def split: if_splits)

lemma block_inv_frame:
  assumes "block_inv v ds u" and "ds_main u = MainWaiting"
    and "ds_validator u = gate_run validate_step v (main_arrivals ds)"
  shows "block_inv v (ds @ [MainFrame now f]) (mainFrame now f u)"
proof (cases rule: mainFrame_cases [of u now f])
  case (granted f' v' cf q)
  then show ?thesis using assms grant_length [OF granted(5)]
    by (simp add: block_inv_def credit_frames_def main_frames_frame is_credit_def)
next
  case (full f' v' cf)
  then show ?thesis using assms grant_None [OF full(5)]
    by (simp add: block_inv_def credit_frames_def main_frames_frame is_credit_def)
qed (use assms in \<open>simp_all add: block_inv_def credit_frames_def main_frames_frame is_credit_def\<close>)

lemma block_inv_run:
  assumes "decoded_run es (startDecodedExecution req v) = Some s"
  shows "block_inv v es s"
proof (rule run_steps_invariant [OF assms])
  show "block_inv v [] (startDecodedExecution req v)"
    by (simp add: block_inv_def credit_frames_def startDecodedExecution_def)
next
  fix ds u e u'
  assume r: "decoded_run ds (startDecodedExecution req v) = Some u" and inv: "block_inv v ds u"
    and step: "decoded_step e u = Some u'"
  show "block_inv v (ds @ [e]) u'"
    using step
  proof (cases rule: decoded_step_cases)
    case (frame now f)
    then show ?thesis using block_inv_frame [OF inv] main_validator [OF r]
      by (simp add: startDecodedExecution_def)
  next
    case (unblocked b q)
    then show ?thesis using inv grant_length [OF unblocked(3)]
      by (simp add: block_inv_def credit_frames_other)
  qed (use inv in \<open>auto simp: block_inv_def credit_frames_other\<close>)
qed

section \<open>The result\<close>

definition result_inv :: "streamValidator \<Rightarrow> decoded_event list \<Rightarrow> decoded_state \<Rightarrow> bool" where
  "result_inv v es s \<longleftrightarrow>
     (ds_main s = MainDone \<longleftrightarrow> ds_final s \<noteq> None)
     \<and> (ds_main s = MainDone \<longrightarrow> ds_exec s = ExecReturned)
     \<and> (\<forall>r. ds_resultCh s = Some r \<longrightarrow> ds_exec s = ExecReturned \<and> ds_main s \<noteq> MainDone \<and> ExecReturn r \<in> set es)
     \<and> (ds_exec s = ExecReturned \<and> ds_main s \<noteq> MainDone \<longrightarrow> ds_resultCh s \<noteq> None)
     \<and> (ds_main s = MainWaiting \<or> blocks (ds_main s) = 1 \<longrightarrow> cancel_reasons (main_frames v es) = {})
     \<and> (\<forall>reason. ds_main s = MainCancelled reason \<longrightarrow> cancel_reasons (main_frames v es) = {reason} \<and> ds_ctxDone s)
     \<and> (\<forall>fs. ds_final s = Some fs \<longrightarrow> (\<exists>r. ExecReturn r \<in> set es
          \<and> (cancel_reasons (main_frames v es) = {} \<and> fs = r
             \<or> (\<exists>reason. cancel_reasons (main_frames v es) = {reason} \<and> fs = applyCancellation r reason))))"

lemma cancel_reasons_append [simp]:
  "cancel_reasons (fs @ gs) = cancel_reasons fs \<union> cancel_reasons gs"
  by (auto simp: cancel_reasons_def)

lemma cancel_reasons_single [simp]: "cancel_reasons [f] = set_option (GetCancel f)"
  by (auto simp: cancel_reasons_def)

lemma cancel_reasons_Nil [simp]: "cancel_reasons [] = {}"
  by (simp add: cancel_reasons_def)

lemma result_inv_frame:
  assumes "result_inv v ds u" and "ds_main u = MainWaiting"
    and "ds_validator u = gate_run validate_step v (main_arrivals ds)"
  shows "result_inv v (ds @ [MainFrame now f]) (mainFrame now f u)"
  using assms
  by (cases rule: mainFrame_cases [of u now f]) (simp_all add: result_inv_def main_frames_frame)

lemma result_inv_result:
  assumes "result_inv v ds u" and "ds_resultCh u = Some r"
    and "ds_main u = MainWaiting \<or> (\<exists>reason. ds_main u = MainCancelled reason)"
  shows "result_inv v (ds @ [MainResult])
    (u\<lparr>ds_main := MainDone, ds_resultCh := None, ds_final := Some (finalFrames (ds_main u) r)\<rparr>)"
proof -
  have r: "ExecReturn r \<in> set ds" "ds_exec u = ExecReturned" using assms(1,2) by (simp_all add: result_inv_def)
  have frames: "main_frames v (ds @ [MainResult]) = main_frames v ds" by (rule main_frames_other) simp
  from assms(3) show ?thesis
  proof
    assume "ds_main u = MainWaiting"
    then show ?thesis using assms(1) r by (auto simp: result_inv_def frames finalFrames_def)
  next
    assume "\<exists>reason. ds_main u = MainCancelled reason"
    then show ?thesis using assms(1) r by (auto simp: result_inv_def frames finalFrames_def)
  qed
qed

lemma result_inv_run:
  assumes "decoded_run es (startDecodedExecution req v) = Some s"
  shows "result_inv v es s"
proof (rule run_steps_invariant [OF assms])
  show "result_inv v [] (startDecodedExecution req v)"
    by (simp add: result_inv_def startDecodedExecution_def)
next
  fix ds u e u'
  assume r: "decoded_run ds (startDecodedExecution req v) = Some u" and inv: "result_inv v ds u"
    and step: "decoded_step e u = Some u'"
  show "result_inv v (ds @ [e]) u'"
    using step
  proof (cases rule: decoded_step_cases)
    case (frame now f)
    then show ?thesis using result_inv_frame [OF inv] main_validator [OF r]
      by (simp add: startDecodedExecution_def)
  next
    case (result r')
    then show ?thesis using result_inv_result [OF inv] by simp
  next
    case (return fs)
    then show ?thesis using inv by (auto simp: result_inv_def main_frames_other)
  next
    case deadline
    then show ?thesis using inv by (auto simp: result_inv_def main_frames_other)
  qed (use inv in \<open>auto simp: result_inv_def main_frames_other\<close>)
qed

section \<open>A full grants channel\<close>

definition credit_frame :: "streamValidator \<Rightarrow> StreamFrame" where
  "credit_frame v = \<lparr>stream_seq = expectedSeq v, sf_attempt = sv_attempt v,
     sf_payload = Some (StreamFrame_Credit \<lparr>upload_credit_bytes = 0, download_credit_bytes = 1\<rparr>)\<rparr>"

lemma credit_frame_simps [simp]:
  "GetCredit (credit_frame v) = Some \<lparr>upload_credit_bytes = 0, download_credit_bytes = 1\<rparr>"
  "GetCancel (credit_frame v) = None" "frame_bytes (credit_frame v) = []"
  by (simp_all add: credit_frame_def GetCredit_def GetCancel_def frame_bytes_def GetData_def)

lemma credit_frame_accepted:
  assumes "\<not> sv_terminal v" and "expectedSeq v \<noteq> 0"
  shows "accept now v (Some (credit_frame v)) = (frameAccepted, v\<lparr>expectedSeq := expectedSeq v + 1, lastActivity := now\<rparr>)"
proof -
  have "acceptable v (Some (credit_frame v))"
    using assms
    by (simp add: acceptable_Some credit_frame_def GetData_def isBodyRefFrame_def is_data_frame_def
        frame_bytes_def ulen_def)
  moreover have "advance now v (credit_frame v) = v\<lparr>expectedSeq := expectedSeq v + 1, lastActivity := now\<rparr>"
    using assms(1) by (simp add: advance_def ulen_def credit_frame_def isTerminalFrame_def frame_bytes_def GetData_def)
  ultimately show ?thesis by (simp add: accept_Some_acceptable)
qed

text \<open>The main loop waits, with \<open>n\<close> grants in the channel and room for \<open>k\<close> more sequence numbers.\<close>

definition waits_with :: "nat \<Rightarrow> nat \<Rightarrow> decoded_state \<Rightarrow> bool" where
  "waits_with n k s \<longleftrightarrow>
     ds_main s = MainWaiting \<and> ds_exec s = ExecRunning \<and> ds_gate s \<noteq> None \<and> length (ds_grants s) = n
     \<and> ds_final s = None \<and> \<not> sv_terminal (ds_validator s)
     \<and> 0 < unat (expectedSeq (ds_validator s)) \<and> unat (expectedSeq (ds_validator s)) + k < 2 ^ 64"

lemma waits_with_frame:
  assumes "waits_with n (Suc k) s"
  shows "\<exists>t. decoded_step (MainFrame 0 (Some (credit_frame (ds_validator s)))) s = Some t
    \<and> (n < streamFrameChannelBuffer \<longrightarrow> waits_with (Suc n) k t)
    \<and> (n = streamFrameChannelBuffer \<longrightarrow> ds_main t = MainGranting 1 \<and> ds_grants t = ds_grants s
        \<and> ds_gate t = ds_gate s \<and> ds_exec t = ExecRunning \<and> ds_final t = None)"
proof -
  let ?v = "ds_validator s"
  have w: "ds_main s = MainWaiting" "ds_exec s = ExecRunning" "length (ds_grants s) = n" "ds_final s = None"
    "\<not> sv_terminal ?v" "0 < unat (expectedSeq ?v)" "unat (expectedSeq ?v) + Suc k < 2 ^ 64"
    using assms by (simp_all add: waits_with_def)
  obtain g where g: "ds_gate s = Some g" using assms by (auto simp: waits_with_def)
  have seq: "unat (expectedSeq ?v + 1) = unat (expectedSeq ?v) + 1"
    using w(7) by (simp add: unat_add_no_wrap)
  have a: "accept 0 ?v (Some (credit_frame ?v)) = (frameAccepted, ?v\<lparr>expectedSeq := expectedSeq ?v + 1, lastActivity := 0\<rparr>)"
    using w(5,6) by (intro credit_frame_accepted) auto
  have p: "sf_payload (credit_frame ?v) = Some (StreamFrame_Credit \<lparr>upload_credit_bytes = 0, download_credit_bytes = 1\<rparr>)"
    by (simp add: credit_frame_def)
  show ?thesis
  proof (cases "n < streamFrameChannelBuffer")
    case True
    then show ?thesis using w g a seq
      by (simp add: mainFrame_def p grant_def waits_with_def)
  next
    case False
    then show ?thesis using w g a
      by (simp add: mainFrame_def p grant_def)
  qed
qed

lemma fill_grants:
  assumes "waits_with n (k + m) s" and "n + k \<le> streamFrameChannelBuffer"
  shows "\<exists>es t. decoded_run es s = Some t \<and> waits_with (n + k) m t"
  using assms
proof (induction k arbitrary: n s)
  case 0
  then show ?case by (intro exI [of _ "[]"]) simp
next
  case (Suc k)
  then have "waits_with n (Suc (k + m)) s" and "n < streamFrameChannelBuffer" by simp_all
  with waits_with_frame obtain e t where "decoded_step e s = Some t" "waits_with (Suc n) (k + m) t" by blast
  with Suc.IH [of "Suc n" t] Suc.prems(2) obtain es u
    where "decoded_run (e # es) s = Some u" "waits_with (Suc n + k) m u" by auto
  then have "\<exists>es t. decoded_run es s = Some t \<and> waits_with (Suc n + k) m t" by blast
  then show ?case by simp
qed

text \<open>The main loop is blocked in \<open>grant\<close> for good once the executor has returned.\<close>

definition stuck :: "decoded_state \<Rightarrow> bool" where
  "stuck s \<longleftrightarrow> ds_main s = MainGranting 1 \<and> ds_exec s = ExecReturned \<and> ds_gate s \<noteq> None
     \<and> length (ds_grants s) = streamFrameChannelBuffer \<and> ds_final s = None"

lemma stuck_step: "stuck s \<Longrightarrow> decoded_step e s = Some t \<Longrightarrow> stuck t"
  by (cases e) (auto simp: stuck_def grant_def)

lemma stuck_run: "decoded_run es s = Some t \<Longrightarrow> stuck s \<Longrightarrow> stuck t"
  by (rule run_steps_stable [where P = stuck]) (auto intro: stuck_step)

section \<open>Properties\<close>

definition sample_request :: "u64 \<Rightarrow> AssignRequest" where
  "sample_request credit = \<lparr>ar_mode = REQUEST_MODE_DECODED_HTTP, ar_attempt = 7, ar_deadline_unix_ms = 0,
     expected_upload_bytes = 0, initial_upload_credit_bytes = 0, initial_download_credit_bytes = credit\<rparr>"

definition sample_validator :: streamValidator where
  "sample_validator = newStreamValidator 7 0 0 False 0"

definition sample_cancel :: StreamFrame where
  "sample_cancel = \<lparr>stream_seq = 1, sf_attempt = 7, sf_payload = Some (StreamFrame_Cancel ''c'')\<rparr>"

lemma sample_decoded_run:
  "\<exists>s. decoded_run [ExecSend (data_frame 0 7 0 [1, 2]), ExecChunk, MainFrame 3 (Some (credit_frame sample_validator)),
       ExecGrant, ExecChunk, ExecReturn [data_frame 9 7 0 []], MainResult]
     (startDecodedExecution (sample_request 1) sample_validator) = Some s
     \<and> ds_sent s = [data_frame 1 7 0 [1], data_frame 2 7 1 [2]] \<and> ds_final s = Some [data_frame 9 7 0 []]"
  by (simp add: startDecodedExecution_def sample_request_def newResponseCreditGate_def execSend_def execChunk_def
      takeAvailable_def responseFrameDataBytes_def uint64FromInt_def Let_def mainFrame_def
      credit_frame_accepted sample_validator_def newStreamValidator_def grant_def finalFrames_def ulen_def)
    (simp add: credit_frame_def grant_def streamFrameChannelBuffer_def execChunk_def takeAvailable_def
      responseFrameDataBytes_def uint64FromInt_def Let_def ulen_def finalFrames_def)

text \<open>
  C4: Flow control of a request, in every interleaving of the executor with the main loop: the bytes
  published, the credit of the gate, the grants in the channel and the grant the main loop is
  blocked on add up to the initial credit and the credit of the frames accepted. So no byte is sent
  without credit and no credit is lost; and the frames sent are numbered without gap.
\<close>

theorem decoded_credit_conserved:
  assumes "decoded_run es (startDecodedExecution req v) = Some s" and "initial_download_credit_bytes req \<noteq> 0"
  shows "length (stream_bytes (ds_sent s)) + gate_left (ds_gate s) + sum_list (map unat (ds_grants s))
      + granting (ds_main s)
      = unat (initial_download_credit_bytes req) + sum_list (map download_credit (main_frames v es))
    \<and> numbered 0 (ds_sent s)"
  using credit_inv_run [OF assms(1)] sent_numbered [OF assms(1)] assms(2) by (simp add: credit_inv_def)

theorem decoded_credit_conserved_witness:
  "\<exists>es s. decoded_run es (startDecodedExecution (sample_request 1) sample_validator) = Some s
     \<and> length (stream_bytes (ds_sent s)) = 2 \<and> numbered 0 (ds_sent s)"
proof -
  from sample_decoded_run obtain es s
    where r: "decoded_run es (startDecodedExecution (sample_request 1) sample_validator) = Some s"
      and sent: "ds_sent s = [data_frame 1 7 0 [1], data_frame 2 7 1 [2]]" by blast
  have "initial_download_credit_bytes (sample_request 1) \<noteq> 0" by (simp add: sample_request_def)
  from decoded_credit_conserved [OF r this] r sent show ?thesis by (intro exI [of _ es] exI [of _ s]) simp
qed

text \<open>
  C9: What is published at the end is what the executor returned: unchanged when no cancel frame was
  accepted, and closed by \<open>applyCancellation\<close> with the reason of the one cancel frame accepted
  otherwise.
\<close>

theorem decoded_final_frames:
  assumes "decoded_run es (startDecodedExecution req v) = Some s" and "ds_final s = Some fs"
  shows "\<exists>r. ExecReturn r \<in> set es
    \<and> (cancel_reasons (main_frames v es) = {} \<and> fs = r
       \<or> (\<exists>reason. cancel_reasons (main_frames v es) = {reason} \<and> fs = applyCancellation r reason))"
  using result_inv_run [OF assms(1)] assms(2) by (auto simp: result_inv_def)

theorem decoded_final_frames_witness:
  "\<exists>r. ExecReturn r \<in> set [MainFrame 0 (Some sample_cancel), ExecReturn [data_frame 4 7 0 []], MainResult]
    \<and> (cancel_reasons (main_frames sample_validator
           [MainFrame 0 (Some sample_cancel), ExecReturn [data_frame 4 7 0 []], MainResult]) = {}
         \<and> applyCancellation [data_frame 4 7 0 []] ''c'' = r
       \<or> (\<exists>reason. cancel_reasons (main_frames sample_validator
           [MainFrame 0 (Some sample_cancel), ExecReturn [data_frame 4 7 0 []], MainResult]) = {reason}
         \<and> applyCancellation [data_frame 4 7 0 []] ''c'' = applyCancellation r reason))"
proof -
  let ?es = "[MainFrame 0 (Some sample_cancel), ExecReturn [data_frame 4 7 0 []], MainResult]"
  have "\<exists>s. decoded_run ?es (startDecodedExecution (sample_request 0) sample_validator) = Some s
      \<and> ds_final s = Some (applyCancellation [data_frame 4 7 0 []] ''c'')"
    by (simp add: startDecodedExecution_def sample_request_def mainFrame_def accept_def validateFrameShell_def
        acceptData_def sample_cancel_def sample_validator_def newStreamValidator_def isBodyRefFrame_def
        isTerminalFrame_def GetData_def finalFrames_def)
  then obtain s where "decoded_run ?es (startDecodedExecution (sample_request 0) sample_validator) = Some s"
    "ds_final s = Some (applyCancellation [data_frame 4 7 0 []] ''c'')" by blast
  from decoded_final_frames [OF this] show ?thesis .
qed

text \<open>
  C17: With at most as many credit frames as the grants channel holds, the main loop never blocks: as
  soon as the executor has returned, receiving its result is possible and publishes the final frames.
\<close>

theorem decoded_result_received:
  assumes "decoded_run es (startDecodedExecution req v) = Some s"
    and "credit_frames v es \<le> streamFrameChannelBuffer" and "ds_exec s = ExecReturned"
  shows "ds_final s \<noteq> None \<or> (\<exists>t. decoded_step MainResult s = Some t \<and> ds_final t \<noteq> None)"
proof -
  have inv: "result_inv v es s" by (rule result_inv_run [OF assms(1)])
  have "blocks (ds_main s) \<noteq> 1" using block_inv_run [OF assms(1)] assms(2) by (simp add: block_inv_def)
  then show ?thesis using inv assms(3)
    by (cases "ds_main s") (auto simp: result_inv_def)
qed

theorem decoded_result_received_witness:
  "\<exists>s t. decoded_run [ExecReturn []] (startDecodedExecution (sample_request 5) sample_validator) = Some s
     \<and> (ds_final s \<noteq> None \<or> (decoded_step MainResult s = Some t \<and> ds_final t \<noteq> None))"
proof -
  obtain s where r: "decoded_run [ExecReturn []] (startDecodedExecution (sample_request 5) sample_validator) = Some s"
    and x: "ds_exec s = ExecReturned" by (simp add: startDecodedExecution_def)
  have "credit_frames sample_validator [ExecReturn []] \<le> streamFrameChannelBuffer"
    by (simp add: credit_frames_def main_frames_def)
  from decoded_result_received [OF r this x] r show ?thesis by blast
qed

text \<open>
  One credit frame more than the channel holds can lose the result: for every request with a
  download credit there is a run of accepted credit frames after which the executor has returned and
  the main loop is blocked in \<open>grant\<close>, and from there no step publishes the final frames, whatever
  happens.
\<close>

lemma full_grant_channel_loses_result:
  assumes "initial_download_credit_bytes req \<noteq> 0" and "\<not> sv_terminal v"
    and "0 < unat (expectedSeq v)" and "unat (expectedSeq v) + 33 < 2 ^ 64"
  shows "\<exists>es s. decoded_run es (startDecodedExecution req v) = Some s \<and> ds_exec s = ExecReturned
    \<and> (\<forall>fs t. decoded_run fs s = Some t \<longrightarrow> ds_final t = None)"
proof -
  have "waits_with 0 (32 + 1) (startDecodedExecution req v)"
    using assms by (simp add: waits_with_def startDecodedExecution_def newResponseCreditGate_def)
  then obtain es t where t: "decoded_run es (startDecodedExecution req v) = Some t" "waits_with 32 1 t"
    using fill_grants [of 0 32 1 "startDecodedExecution req v"]
    by (auto simp: streamFrameChannelBuffer_def)
  then have "waits_with 32 (Suc 0) t" by simp
  from waits_with_frame [OF this] obtain e u where u: "decoded_step e t = Some u" "ds_main u = MainGranting 1"
    "ds_grants u = ds_grants t" "ds_gate u = ds_gate t" "ds_exec u = ExecRunning" "ds_final u = None"
    unfolding streamFrameChannelBuffer_def by blast
  let ?w = "u\<lparr>ds_exec := ExecReturned, ds_resultCh := Some []\<rparr>"
  have "decoded_run (es @ [e, ExecReturn []]) (startDecodedExecution req v) = Some ?w"
    using t(1) u by (simp add: run_steps_append)
  moreover have "stuck ?w"
    using t(2) u by (simp add: stuck_def waits_with_def streamFrameChannelBuffer_def)
  then have "ds_final x = None" if "decoded_run fs ?w = Some x" for fs x
    using stuck_run [OF that] by (simp add: stuck_def)
  ultimately show ?thesis by (intro exI [of _ "es @ [e, ExecReturn []]"] exI [of _ ?w]) simp
qed

lemma full_grant_channel_loses_result_witness:
  "\<exists>es s. decoded_run es (startDecodedExecution (sample_request 5) sample_validator) = Some s
    \<and> ds_exec s = ExecReturned \<and> (\<forall>fs t. decoded_run fs s = Some t \<longrightarrow> ds_final t = None)"
  by (rule full_grant_channel_loses_result)
    (simp_all add: sample_request_def sample_validator_def newStreamValidator_def)

end
