(* ===== verification/Tunnel_Safety.thy ===== *)
theory Tunnel_Safety
  imports Tunnel Decoded_Safety "HOL-Library.Multiset"
begin

text \<open>
  What holds of a raw tunnel in every interleaving of its two goroutines: the numbers of the frames,
  the download credit, the bytes in both directions.
\<close>

section \<open>The steps\<close>

fun tunnel_arrivals :: "tunnel_event list \<Rightarrow> arrival list" where
  "tunnel_arrivals [] = []"
| "tunnel_arrivals (TnFrame now frame w # es) = (now, frame) # tunnel_arrivals es"
| "tunnel_arrivals (_ # es) = tunnel_arrivals es"

definition tunnel_frames :: "streamValidator \<Rightarrow> tunnel_event list \<Rightarrow> StreamFrame list" where
  "tunnel_frames v es = frames_of (gate_passed validate_step v (tunnel_arrivals es))"

fun bytes_read :: "tunnel_event list \<Rightarrow> bytes" where
  "bytes_read [] = []"
| "bytes_read (TnRead bs err # es) = bs @ bytes_read es"
| "bytes_read (_ # es) = bytes_read es"

lemma tunnel_arrivals_append [simp]: "tunnel_arrivals (es @ fs) = tunnel_arrivals es @ tunnel_arrivals fs"
  by (induction es rule: tunnel_arrivals.induct) simp_all

lemma bytes_read_append [simp]: "bytes_read (es @ fs) = bytes_read es @ bytes_read fs"
  by (induction es rule: bytes_read.induct) simp_all

lemma handleFrame_cases:
  obtains (refused) "\<not> fst (validate_step (tn_validator s) (now, frame))" "handleFrame now frame w s = s"
  | (other) f v' where "frame = Some f" "validate_step (tn_validator s) (now, frame) = (True, v')"
      "GetCredit f = None" "GetData f = None" "handleFrame now frame w s = s\<lparr>tn_validator := v'\<rparr>"
  | (granted) f v' c q where "frame = Some f" "validate_step (tn_validator s) (now, frame) = (True, v')"
      "GetCredit f = Some c" "GetData f = None"
      "grant (tn_gate s) (download_credit_bytes c) (tn_grants s) = Some q"
      "handleFrame now frame w s = s\<lparr>tn_validator := v', tn_grants := q\<rparr>"
  | (full) f v' c where "frame = Some f" "validate_step (tn_validator s) (now, frame) = (True, v')"
      "GetCredit f = Some c" "GetData f = None"
      "grant (tn_gate s) (download_credit_bytes c) (tn_grants s) = None"
      "handleFrame now frame w s = s\<lparr>tn_validator := v', tn_main := TunnelGranting (download_credit_bytes c)\<rparr>"
  | (cancel) f v' reason where "frame = Some f" "validate_step (tn_validator s) (now, frame) = (True, v')"
      "GetCredit f = None" "GetData f = None"
      "handleFrame now frame w s = publish_then True (next_frame (StreamFrame_Cancelled reason)) (s\<lparr>tn_validator := v'\<rparr>)"
  | (data) f v' d as p stop where "frame = Some f" "validate_step (tn_validator s) (now, frame) = (True, v')"
      "GetCredit f = None" "GetData f = Some d" "\<exists>rest. df_data d = as @ rest \<and> (rest \<noteq> [] \<longrightarrow> stop)"
      "\<forall>d'. p \<noteq> StreamFrame_Data d'"
      "handleFrame now frame w s
         = publish_then stop (next_frame p) (s\<lparr>tn_validator := v', tn_written := tn_written s @ as\<rparr>)"
proof -
  obtain out v' where a: "accept now (tn_validator s) frame = (out, v')" by fastforce
  have step: "validate_step (tn_validator s) (now, frame) = (out = frameAccepted, v')"
    using a by (simp add: validate_step_def)
  show ?thesis
  proof (cases "out = frameAccepted")
    case False
    then have "v' = tn_validator s"
      using validator.reject_keeps [of "tn_validator s" "(now, frame)"] step by simp
    with False show ?thesis using a step by (intro refused) (simp_all add: handleFrame_def)
  next
    case True
    with a obtain f where f: "frame = Some f" by (cases frame) (auto simp: accept_None)
    have "(\<exists>c. sf_payload f = Some (StreamFrame_Credit c)) \<or> (\<exists>d. sf_payload f = Some (StreamFrame_Data d))
        \<or> (\<exists>r. sf_payload f = Some (StreamFrame_Cancel r))
        \<or> (GetCredit f = None \<and> GetData f = None \<and> GetCancel f = None)"
      by (auto simp: GetCredit_def GetData_def GetCancel_def split: option.splits Payload.splits)
    then consider (c) c where "sf_payload f = Some (StreamFrame_Credit c)"
      | (d) d where "sf_payload f = Some (StreamFrame_Data d)"
      | (r) r where "sf_payload f = Some (StreamFrame_Cancel r)"
      | (o) "GetCredit f = None" "GetData f = None" "GetCancel f = None" by (elim disjE exE conjE) auto
    then show ?thesis
    proof cases
      case c
      then show ?thesis using True f a step
        by (cases "grant (tn_gate s) (download_credit_bytes c) (tn_grants s)")
          (auto simp: handleFrame_def GetData_def GetCredit_def intro: granted full)
    next
      case d
      show ?thesis
      proof (cases w)
        case WriteOk
        show ?thesis
          by (rule data [of f v' d "df_data d" False "StreamFrame_Credit
                \<lparr>upload_credit_bytes = uint64FromInt (int (length (df_data d))), download_credit_bytes = 0\<rparr>"])
            (use d True f a step WriteOk in \<open>simp_all add: handleFrame_def GetData_def GetCredit_def
              handleData_def uploadCredit_def [abs_def]\<close>)
      next
        case (WriteFailed n msg)
        show ?thesis
          by (rule data [of f v' d "take n (df_data d)" True "StreamFrame_Error
                (fact_error ERROR_CODE_UPSTREAM_RESET msg)"])
            (use d True f a step WriteFailed in \<open>simp_all add: handleFrame_def GetData_def GetCredit_def
              handleData_def build_error_def [abs_def] exI [of _ "drop n (df_data d)"]\<close>)
      qed
    next
      case r
      then show ?thesis using True f a step
        by (intro cancel [of f v' r]) (simp_all add: handleFrame_def GetData_def GetCredit_def cancelled_def [abs_def])
    next
      case o
      then show ?thesis using True f a step
        by (intro other [of f v']) (auto simp: handleFrame_def GetData_def GetCredit_def GetCancel_def
            split: option.splits Payload.splits)
    qed
  qed
qed

lemma downTake_Some:
  assumes "downTake off bs err s = Some t"
  obtains n g' es f b where "takeAvailable (tn_gate s) (length bs) [] = (CreditReady, n, g', es)"
    "build_data off (take n bs) (tn_builder s) = (f, b)"
    "t = s\<lparr>tn_gate := g', tn_builder := b,
           tn_down := DownPublish f (off + uint64FromInt (int n)) (drop n bs) err\<rparr>"
proof -
  obtain st n g' es where r: "takeAvailable (tn_gate s) (length bs) [] = (st, n, g', es)" by (metis prod_cases4)
  obtain f b where fb: "build_data off (take n bs) (tn_builder s) = (f, b)" by fastforce
  show ?thesis using assms r fb by (cases st) (auto simp: downTake_def intro: that)
qed

lemma tunnel_step_cases:
  assumes "tunnel_step e s = Some t"
  obtains (read) bs err off where "e = TnRead bs err" "tn_down s = DownReading off"
      "length bs \<le> responseFrameDataBytes" "t = downNext off bs err s"
  | (take) off bs err n g' es f b where "e = TnTake" "tn_down s = DownSending off bs err"
      "takeAvailable (tn_gate s) (length bs) [] = (CreditReady, n, g', es)"
      "build_data off (take n bs) (tn_builder s) = (f, b)"
      "t = s\<lparr>tn_gate := g', tn_builder := b,
           tn_down := DownPublish f (off + uint64FromInt (int n)) (drop n bs) err\<rparr>"
  | (receive) g b q where "e = TnReceive" "tn_gate s = Some g" "gate_credit g = 0" "tn_grants s = b # q"
      "t = s\<lparr>tn_gate := Some (g\<lparr>gate_credit := b\<rparr>), tn_grants := q\<rparr>"
  | (giveup) off bs err where "e = TnGiveUp" "tn_down s = DownSending off bs err"
      "t = s\<lparr>tn_done := Some CtxErr, tn_down := DownEnded\<rparr>"
  | (downpublish) f off bs err where "e = TnDownPublish" "tn_down s = DownPublish f off bs err"
      "t = downNext off bs err (s\<lparr>tn_published := tn_published s @ [f]\<rparr>)"
  | (finish) p d where "e = TnDone \<or> e = TnCtxDone" "tn_main s = TunnelSelect" "\<forall>d'. p \<noteq> StreamFrame_Data d'"
      "t = publish_then True (next_frame p) (s\<lparr>tn_done := d\<rparr>)"
  | (tick) now m where "e = TnTick now" "tn_main s = TunnelSelect" "m = TunnelSelect \<or> m = TunnelReturned"
      "t = s\<lparr>tn_main := m\<rparr>"
  | (frame) now f w where "e = TnFrame now f w" "tn_main s = TunnelSelect" "t = handleFrame now f w s"
  | (publish) f stop where "e = TnPublish" "tn_main s = TunnelPublish f stop"
      "t = s\<lparr>tn_published := tn_published s @ [f], tn_main := (if stop then TunnelReturned else TunnelSelect)\<rparr>"
  | (unblocked) b q where "e = TnGrantGoes" "tn_main s = TunnelGranting b"
      "grant (tn_gate s) b (tn_grants s) = Some q" "t = s\<lparr>tn_grants := q, tn_main := TunnelSelect\<rparr>"
  | (cancel) "e = TnCancelCtx" "t = s\<lparr>tn_ctxDone := True\<rparr>"
proof (cases e)
  case (TnRead bs err)
  with assms show ?thesis by (auto split: tunnel_download.splits if_splits intro: read)
next
  case TnTake
  with assms obtain off bs err where x: "tn_down s = DownSending off bs err" "downTake off bs err s = Some t"
    by (auto split: tunnel_download.splits)
  show ?thesis by (rule downTake_Some [OF x(2)], rule take [OF TnTake x(1)])
next
  case TnReceive
  with assms show ?thesis
    by (auto split: tunnel_download.splits option.splits list.splits if_splits intro: receive)
next
  case TnGiveUp
  with assms show ?thesis by (auto split: tunnel_download.splits option.splits if_splits intro: giveup)
next
  case TnDownPublish
  with assms show ?thesis by (auto split: tunnel_download.splits intro: downpublish)
next
  case TnDone
  with assms obtain err where err: "tn_main s = TunnelSelect" "t = handleDone err (s\<lparr>tn_done := None\<rparr>)"
    by (auto split: tunnel_main.splits option.splits)
  then show ?thesis
    by (intro finish [of "if err \<noteq> IoEOF \<and> err \<noteq> NetErrClosed
          then StreamFrame_Error (fact_error ERROR_CODE_UPSTREAM_RESET ''upstream_reset_before_headers'')
          else StreamFrame_End True" None])
      (auto simp: TnDone handleDone_def build_error_def [abs_def] build_end_def [abs_def])
next
  case TnCtxDone
  with assms have "tn_main s = TunnelSelect" "t = handleCtxDone s" by (auto split: if_splits)
  then show ?thesis
    by (intro finish [of "StreamFrame_Error (fact_error ERROR_CODE_TIMEOUT_EXCEEDED ''request_cancelled'')" "tn_done s"])
      (auto simp: TnCtxDone handleCtxDone_def build_error_def [abs_def])
next
  case (TnTick now)
  with assms show ?thesis
    by (intro tick [of now "if idleExpired now (tn_validator s) then TunnelReturned else TunnelSelect"])
      (auto split: if_splits)
next
  case (TnFrame now f w)
  with assms show ?thesis by (intro frame) (auto split: if_splits)
next
  case TnPublish
  with assms show ?thesis by (auto split: tunnel_main.splits intro: publish)
next
  case TnGrantGoes
  with assms show ?thesis by (auto split: tunnel_main.splits option.splits intro: unblocked)
next
  case TnCancelCtx
  with assms show ?thesis by (intro cancel) auto
qed

section \<open>Numbers\<close>

text \<open>Frames that have a number and are not published yet.\<close>

definition main_hand :: "tunnel_main \<Rightarrow> StreamFrame list" where
  "main_hand m = (case m of TunnelPublish f stop \<Rightarrow> [f] | _ \<Rightarrow> [])"

definition down_hand :: "tunnel_download \<Rightarrow> StreamFrame list" where
  "down_hand d = (case d of DownPublish f off bs err \<Rightarrow> [f] | _ \<Rightarrow> [])"

lemma hand_simps [simp]:
  "main_hand TunnelSelect = []" "main_hand (TunnelPublish f stop) = [f]" "main_hand (TunnelGranting b) = []"
  "main_hand TunnelReturned = []" "down_hand (DownReading off) = []" "down_hand (DownSending off bs err) = []"
  "down_hand (DownPublish f off bs err) = [f]" "down_hand DownEnded = []"
  by (simp_all add: main_hand_def down_hand_def)

definition built :: "tunnel_state \<Rightarrow> StreamFrame multiset" where
  "built s = mset (tn_published s) + mset (main_hand (tn_main s)) + mset (down_hand (tn_down s))"

definition builder_inv :: "u32 \<Rightarrow> tunnel_state \<Rightarrow> bool" where
  "builder_inv a s \<longleftrightarrow>
     bd_attempt (tn_builder s) = a \<and> bd_seq (tn_builder s) = of_nat (size (built s))
     \<and> image_mset stream_seq (built s) = mset (map of_nat [1..<Suc (size (built s))])
     \<and> (\<forall>f\<in>#built s. sf_attempt f = a)"

lemma downNext_simps [simp]:
  "down_hand (tn_down (downNext off bs err s)) = []" "tn_main (downNext off bs err s) = tn_main s"
  "tn_published (downNext off bs err s) = tn_published s" "tn_builder (downNext off bs err s) = tn_builder s"
  "tn_gate (downNext off bs err s) = tn_gate s" "tn_grants (downNext off bs err s) = tn_grants s"
  "tn_written (downNext off bs err s) = tn_written s" "tn_validator (downNext off bs err s) = tn_validator s"
  by (simp_all add: downNext_def split: option.splits)

lemma builder_inv_same:
  assumes "builder_inv a s" and "tn_builder t = tn_builder s" and "built t = built s"
  shows "builder_inv a t"
  using assms by (simp add: builder_inv_def)

lemma builder_inv_next:
  assumes "builder_inv a s" and "next_frame p (tn_builder s) = (f, b)" and "tn_builder t = b"
    and "built t = add_mset f (built s)"
  shows "builder_inv a t"
proof -
  have b: "tn_builder t = tn_builder s\<lparr>bd_seq := bd_seq (tn_builder s) + 1\<rparr>"
    and f: "stream_seq f = bd_seq (tn_builder s) + 1" "sf_attempt f = bd_attempt (tn_builder s)"
    using assms(2,3) by (auto simp: next_frame_def Let_def)
  have "[1..<Suc (Suc n)] = [1..<Suc n] @ [Suc n]" for n by simp
  then show ?thesis
    using assms(1,4) by (simp add: builder_inv_def b f add.commute del: upt_Suc)
qed

lemma builder_inv_publish_then:
  assumes "builder_inv a s" and "tn_main s = TunnelSelect" and "tn_builder s' = tn_builder s"
    and "tn_published s' = tn_published s" and "tn_down s' = tn_down s"
  shows "builder_inv a (publish_then stop (next_frame p) s')"
proof -
  obtain f b where fb: "next_frame p (tn_builder s) = (f, b)" by fastforce
  then show ?thesis using assms
    by (intro builder_inv_next [OF assms(1) fb]) (auto simp: publish_then_def built_def)
qed

lemma builder_inv_step:
  assumes "builder_inv a s" and "tunnel_step e s = Some t"
  shows "builder_inv a t"
  using assms(2)
proof (cases rule: tunnel_step_cases)
  case (take off bs err n g' es f b)
  then show ?thesis
    by (intro builder_inv_next [OF assms(1) take(4) [unfolded build_data_def]]) (auto simp: built_def)
next
  case (finish p d)
  then show ?thesis using builder_inv_publish_then [OF assms(1)] by simp
next
  case (frame now f w)
  show ?thesis
    unfolding frame(3)
  proof (cases rule: handleFrame_cases [of s now f w])
    case (cancel fr v' reason)
    then show "builder_inv a (handleFrame now f w s)" using frame(2)
      by (simp add: builder_inv_publish_then [OF assms(1)])
  next
    case (data fr v' d as p stop)
    then show "builder_inv a (handleFrame now f w s)" using frame(2)
      by (simp add: builder_inv_publish_then [OF assms(1)])
  next
    case (full fr v' c)
    then show "builder_inv a (handleFrame now f w s)" using frame(2)
      by (intro builder_inv_same [OF assms(1)]) (simp_all add: built_def)
  qed (intro builder_inv_same [OF assms(1)]; simp add: built_def)+
qed (auto intro!: builder_inv_same [OF assms(1)] simp: built_def)

section \<open>The bytes in both directions\<close>

text \<open>The data frames of a list carry consecutive offsets, as machine words, from \<open>n\<close> on.\<close>

fun offsets_ok :: "nat \<Rightarrow> StreamFrame list \<Rightarrow> bool" where
  "offsets_ok n [] \<longleftrightarrow> True"
| "offsets_ok n (f # fs) \<longleftrightarrow>
     (\<forall>d. GetData f = Some d \<longrightarrow> df_offset d = of_nat n) \<and> offsets_ok (n + length (frame_bytes f)) fs"

lemma offsets_ok_append:
  "offsets_ok n (fs @ gs) \<longleftrightarrow> offsets_ok n fs \<and> offsets_ok (n + length (stream_bytes fs)) gs"
  by (induction fs arbitrary: n) (auto simp: add.assoc)

text \<open>The bytes the download goroutine has read and not published, and the offset it is at.\<close>

definition down_pending :: "tunnel_download \<Rightarrow> bytes" where
  "down_pending d = (case d of DownSending off bs err \<Rightarrow> bs | DownPublish f off bs err \<Rightarrow> frame_bytes f @ bs | _ \<Rightarrow> [])"

definition down_at :: "nat \<Rightarrow> tunnel_download \<Rightarrow> bool" where
  "down_at n d \<longleftrightarrow>
     (case d of
        DownReading off \<Rightarrow> off = of_nat n
      | DownSending off bs err \<Rightarrow> off = of_nat n \<and> bs \<noteq> [] \<and> length bs \<le> responseFrameDataBytes
      | DownPublish f off bs err \<Rightarrow>
          (\<exists>d. GetData f = Some d \<and> df_offset d = of_nat n) \<and> off = of_nat (n + length (frame_bytes f))
          \<and> length bs \<le> responseFrameDataBytes
      | DownEnded \<Rightarrow> True)"

lemma down_simps [simp]:
  "down_pending (DownReading off) = []" "down_pending (DownSending off bs err) = bs"
  "down_pending (DownPublish f off bs err) = frame_bytes f @ bs" "down_pending DownEnded = []"
  "down_at n (DownReading off) \<longleftrightarrow> off = of_nat n"
  "down_at n (DownSending off bs err) \<longleftrightarrow> off = of_nat n \<and> bs \<noteq> [] \<and> length bs \<le> responseFrameDataBytes"
  "down_at n (DownPublish f off bs err) \<longleftrightarrow> (\<exists>d. GetData f = Some d \<and> df_offset d = of_nat n)
     \<and> off = of_nat (n + length (frame_bytes f)) \<and> length bs \<le> responseFrameDataBytes"
  "down_at n DownEnded"
  by (simp_all add: down_pending_def down_at_def)

definition down_inv :: "tunnel_event list \<Rightarrow> tunnel_state \<Rightarrow> bool" where
  "down_inv es s \<longleftrightarrow>
     (\<exists>rest. bytes_read es = stream_bytes (tn_published s) @ down_pending (tn_down s) @ rest
        \<and> (rest \<noteq> [] \<longrightarrow> tn_down s = DownEnded))
     \<and> offsets_ok 0 (tn_published s) \<and> down_at (length (stream_bytes (tn_published s))) (tn_down s)
     \<and> (\<forall>f\<in>set (main_hand (tn_main s)). GetData f = None)"

lemma down_next:
  assumes "length bs \<le> responseFrameDataBytes" and "off = of_nat n"
  shows "down_at n (tn_down (downNext off bs err s)) \<and> down_pending (tn_down (downNext off bs err s)) = bs"
  using assms by (auto simp: downNext_def split: option.splits)

lemma publish_then_simps [simp]:
  "tn_published (publish_then stop b s) = tn_published s" "tn_down (publish_then stop b s) = tn_down s"
  "tn_gate (publish_then stop b s) = tn_gate s" "tn_grants (publish_then stop b s) = tn_grants s"
  "tn_written (publish_then stop b s) = tn_written s" "tn_validator (publish_then stop b s) = tn_validator s"
  "tn_main (publish_then stop b s) = TunnelPublish (fst (b (tn_builder s))) stop"
  by (simp_all add: publish_then_def split: prod.splits)

lemma GetData_next_frame:
  "\<forall>d. p \<noteq> StreamFrame_Data d \<Longrightarrow> GetData (fst (next_frame p b)) = None"
  by (cases p) (auto simp: next_frame_def Let_def GetData_def)

lemma frame_bytes_no_data: "GetData f = None \<Longrightarrow> frame_bytes f = []"
  by (simp add: frame_bytes_def)

lemma handleFrame_keeps:
  "tn_published (handleFrame now f w s) = tn_published s \<and> tn_down (handleFrame now f w s) = tn_down s
   \<and> tn_gate (handleFrame now f w s) = tn_gate s
   \<and> (main_hand (tn_main s) = [] \<longrightarrow> (\<forall>g\<in>set (main_hand (tn_main (handleFrame now f w s))). GetData g = None))"
  by (cases rule: handleFrame_cases [of s now f w]) (auto simp: GetData_next_frame)

lemma bytes_read_other: "\<forall>bs err. e \<noteq> TnRead bs err \<Longrightarrow> bytes_read (es @ [e]) = bytes_read es"
  by (cases e) simp_all

lemma down_inv_take:
  assumes inv: "down_inv es s" and down: "tn_down s = DownSending off bs err"
    and taken: "takeAvailable (tn_gate s) (length bs) [] = (CreditReady, n, g', es')"
    and f: "build_data off (take n bs) (tn_builder s) = (f, b)"
  shows "down_inv (es @ [TnTake]) (s\<lparr>tn_gate := g', tn_builder := b,
           tn_down := DownPublish f (off + uint64FromInt (int n)) (drop n bs) err\<rparr>)"
proof -
  have n: "length (take n bs) = n" using gate_taken [OF taken] by simp
  have d: "GetData f = Some \<lparr>df_offset = off, df_data = take n bs\<rparr>"
    using f by (auto simp: build_data_def next_frame_def Let_def GetData_def)
  then have fb: "frame_bytes f = take n bs" by (simp add: frame_bytes_def)
  have "length bs \<le> responseFrameDataBytes" using inv down by (simp add: down_inv_def)
  then have "length (drop n bs) \<le> responseFrameDataBytes" by simp
  then show ?thesis using inv down d n by (auto simp: down_inv_def fb uint64FromInt_nat)
qed

lemma down_inv_step:
  assumes inv: "down_inv es s" and step: "tunnel_step e s = Some t"
  shows "down_inv (es @ [e]) t"
  using step
proof (cases rule: tunnel_step_cases)
  case (read bs err off)
  then have off: "off = of_nat (length (stream_bytes (tn_published s)))" and "bytes_read es = stream_bytes (tn_published s)"
    using inv by (auto simp: down_inv_def)
  then show ?thesis
    using inv read down_next [OF read(3) off, of err s] by (simp add: down_inv_def)
next
  case (take off bs err n g' es' f b)
  then show ?thesis using down_inv_take [OF inv] by simp
next
  case (downpublish f off bs err)
  let ?s = "s\<lparr>tn_published := tn_published s @ [f]\<rparr>"
  have "length bs \<le> responseFrameDataBytes" "off = of_nat (length (stream_bytes (tn_published ?s)))"
    using inv downpublish by (auto simp: down_inv_def)
  from down_next [OF this, of err ?s] show ?thesis
    using inv downpublish by (auto simp: down_inv_def offsets_ok_append)
next
  case (frame now f w)
  then show ?thesis using inv handleFrame_keeps [of now f w s] by (simp add: down_inv_def)
next
  case (publish f stop)
  then show ?thesis using inv
    by (simp add: down_inv_def bytes_read_other offsets_ok_append frame_bytes_no_data)
next
  case (giveup off bs err)
  then show ?thesis using inv by (auto simp: down_inv_def)
next
  case (finish p d)
  then show ?thesis using inv by (auto simp: down_inv_def bytes_read_other GetData_next_frame)
qed (use inv in \<open>auto simp: down_inv_def bytes_read_other\<close>)

section \<open>Credit\<close>

lemma tunnel_frames_other: "\<forall>n f w. e \<noteq> TnFrame n f w \<Longrightarrow> tunnel_frames v (es @ [e]) = tunnel_frames v es"
  by (cases e) (simp_all add: tunnel_frames_def)

lemma tunnel_frames_frame:
  "tunnel_frames v (es @ [TnFrame now f w]) = tunnel_frames v es
     @ (if fst (validate_step (gate_run validate_step v (tunnel_arrivals es)) (now, f)) then [the f] else [])"
  by (simp add: tunnel_frames_def gate_passed_append)

lemma tunnel_validator:
  assumes "tunnel_run es s = Some t"
  shows "tn_validator t = gate_run validate_step (tn_validator s) (tunnel_arrivals es)"
proof (rule run_steps_invariant [OF assms])
  fix ds u e u'
  assume u: "tn_validator u = gate_run validate_step (tn_validator s) (tunnel_arrivals ds)"
    and step: "tunnel_step e u = Some u'"
  show "tn_validator u' = gate_run validate_step (tn_validator s) (tunnel_arrivals (ds @ [e]))"
    using step
  proof (cases rule: tunnel_step_cases)
    case (frame now f w)
    have "tn_validator (handleFrame now f w u) = snd (validate_step (tn_validator u) (now, f))"
      by (cases rule: handleFrame_cases [of u now f w]) (simp_all add: validator.reject_keeps)
    then show ?thesis using frame u by (simp add: gate_run_append)
  qed (use u in auto)
qed simp

definition tunnel_granting :: "tunnel_main \<Rightarrow> nat" where
  "tunnel_granting m = (case m of TunnelGranting b \<Rightarrow> unat b | _ \<Rightarrow> 0)"

lemma tunnel_granting_simps [simp]:
  "tunnel_granting TunnelSelect = 0" "tunnel_granting (TunnelGranting b) = unat b"
  "tunnel_granting (TunnelPublish f stop) = 0" "tunnel_granting TunnelReturned = 0"
  by (simp_all add: tunnel_granting_def)

text \<open>The bytes paid for: those published and those in the numbered frame.\<close>

definition paid :: "tunnel_state \<Rightarrow> nat" where
  "paid s = length (stream_bytes (tn_published s)) + length (stream_bytes (down_hand (tn_down s)))"

definition tunnel_credit_inv :: "streamValidator \<Rightarrow> u64 \<Rightarrow> tunnel_event list \<Rightarrow> tunnel_state \<Rightarrow> bool" where
  "tunnel_credit_inv v c es s \<longleftrightarrow>
     (tn_gate s = None \<longleftrightarrow> c = 0)
     \<and> (c \<noteq> 0 \<longrightarrow>
          paid s + gate_left (tn_gate s) + sum_list (map unat (tn_grants s)) + tunnel_granting (tn_main s)
            = unat c + sum_list (map download_credit (tunnel_frames v es)))"

lemma paid_keeps:
  "tn_published t = tn_published s \<Longrightarrow> tn_down t = tn_down s \<Longrightarrow> paid t = paid s"
  by (simp add: paid_def)

lemma download_credit_None: "GetCredit f = None \<Longrightarrow> download_credit f = 0"
  by (simp add: download_credit_def)

lemma tunnel_credit_frame:
  assumes inv: "tunnel_credit_inv v c ds u" and sel: "tn_main u = TunnelSelect"
    and v: "tn_validator u = gate_run validate_step v (tunnel_arrivals ds)"
  shows "tunnel_credit_inv v c (ds @ [TnFrame now f w]) (handleFrame now f w u)"
proof (cases rule: handleFrame_cases [of u now f w])
  case refused
  then show ?thesis using assms by (simp add: tunnel_credit_inv_def tunnel_frames_frame)
next
  case (granted fr v' cf q)
  show ?thesis
  proof (cases "tn_gate u")
    case None
    then show ?thesis using inv granted by (simp add: tunnel_credit_inv_def)
  next
    case (Some g)
    then show ?thesis using assms granted grant_Some [of g "download_credit_bytes cf" "tn_grants u" q]
      by (auto simp: tunnel_credit_inv_def tunnel_frames_frame download_credit_def paid_def)
  qed
next
  case (full fr v' cf)
  then show ?thesis using assms
    by (auto simp: tunnel_credit_inv_def tunnel_frames_frame download_credit_def paid_def)
next
  case (data fr v' d as p stop)
  then show ?thesis using assms
    by (auto simp: tunnel_credit_inv_def tunnel_frames_frame download_credit_None paid_def)
next
  case (other fr v')
  then show ?thesis using assms
    by (auto simp: tunnel_credit_inv_def tunnel_frames_frame download_credit_None paid_def)
next
  case (cancel fr v' reason)
  then show ?thesis using assms
    by (auto simp: tunnel_credit_inv_def tunnel_frames_frame download_credit_None paid_def)
qed

lemma tunnel_credit_step:
  assumes inv: "tunnel_credit_inv v c ds u" and down: "down_inv ds u" and step: "tunnel_step e u = Some u'"
    and v: "tn_validator u = gate_run validate_step v (tunnel_arrivals ds)"
  shows "tunnel_credit_inv v c (ds @ [e]) u'"
  using step
proof (cases rule: tunnel_step_cases)
  case (take off bs err n g' es f b)
  have "length bs < 2 ^ 64" using down take(2) by (simp add: down_inv_def responseFrameDataBytes_def)
  note gate = gate_paid [OF take(3) this] gate_taken [OF take(3)]
  have "frame_bytes f = List.take n bs"
    using take(4) by (auto simp: build_data_def next_frame_def Let_def frame_bytes_def GetData_def)
  then show ?thesis using inv take gate
    by (auto simp: tunnel_credit_inv_def tunnel_frames_other paid_def)
next
  case (receive g b q)
  then show ?thesis using inv
    by (auto simp: tunnel_credit_inv_def tunnel_frames_other gate_left_def paid_def)
next
  case (frame now f w)
  then show ?thesis using tunnel_credit_frame [OF inv _ v] by simp
next
  case (unblocked b q)
  show ?thesis
  proof (cases "tn_gate u")
    case None
    then show ?thesis using inv unblocked by (simp add: tunnel_credit_inv_def)
  next
    case (Some g)
    then show ?thesis using inv unblocked grant_Some [of g b "tn_grants u" q]
      by (auto simp: tunnel_credit_inv_def tunnel_frames_other paid_def)
  qed
next
  case (publish f stop)
  then have "frame_bytes f = []" using down by (simp add: down_inv_def frame_bytes_no_data)
  then show ?thesis using inv publish by (simp add: tunnel_credit_inv_def tunnel_frames_other paid_def)
next
  case (read bs err off)
  then show ?thesis using inv by (simp add: tunnel_credit_inv_def tunnel_frames_other paid_def)
next
  case (downpublish f off bs err)
  then show ?thesis using inv by (simp add: tunnel_credit_inv_def tunnel_frames_other paid_def)
next
  case (finish p d)
  then show ?thesis using inv by (auto simp: tunnel_credit_inv_def tunnel_frames_other paid_def)
next
  case (tick now m)
  then show ?thesis using inv by (auto simp: tunnel_credit_inv_def tunnel_frames_other paid_def)
qed (use inv in \<open>simp_all add: tunnel_credit_inv_def tunnel_frames_other paid_def\<close>)

section \<open>Upload\<close>

definition stopping :: "tunnel_main \<Rightarrow> bool" where
  "stopping m \<longleftrightarrow> m = TunnelReturned \<or> (\<exists>f. m = TunnelPublish f True)"

definition upload_inv :: "streamValidator \<Rightarrow> tunnel_event list \<Rightarrow> tunnel_state \<Rightarrow> bool" where
  "upload_inv v es s \<longleftrightarrow>
     (\<exists>rest. stream_bytes (tunnel_frames v es) = tn_written s @ rest \<and> (rest \<noteq> [] \<longrightarrow> stopping (tn_main s)))"

lemma upload_frame:
  assumes inv: "upload_inv v ds u" and sel: "tn_main u = TunnelSelect"
    and v: "tn_validator u = gate_run validate_step v (tunnel_arrivals ds)"
  shows "upload_inv v (ds @ [TnFrame now f w]) (handleFrame now f w u)"
proof -
  have all: "stream_bytes (tunnel_frames v ds) = tn_written u"
    using inv sel by (auto simp: upload_inv_def stopping_def)
  show ?thesis
  proof (cases rule: handleFrame_cases [of u now f w])
    case refused
    then show ?thesis using all v by (simp add: upload_inv_def tunnel_frames_frame)
  next
    case (data fr v' d as p stop)
    then obtain rest where "df_data d = as @ rest" "rest \<noteq> [] \<longrightarrow> stop" by blast
    then show ?thesis using all v data
      by (auto simp: upload_inv_def tunnel_frames_frame frame_bytes_def stopping_def)
  qed (use all v in \<open>auto simp: upload_inv_def tunnel_frames_frame frame_bytes_no_data\<close>)
qed

lemma upload_step:
  assumes inv: "upload_inv v ds u" and step: "tunnel_step e u = Some u'"
    and v: "tn_validator u = gate_run validate_step v (tunnel_arrivals ds)"
  shows "upload_inv v (ds @ [e]) u'"
  using step
proof (cases rule: tunnel_step_cases)
  case (frame now f w)
  then show ?thesis using upload_frame [OF inv _ v] by simp
qed (use inv in \<open>auto simp: upload_inv_def tunnel_frames_other stopping_def\<close>)

section \<open>Runs of a tunnel\<close>

definition tunnel_inv :: "AssignRequest \<Rightarrow> streamValidator \<Rightarrow> tunnel_event list \<Rightarrow> tunnel_state \<Rightarrow> bool" where
  "tunnel_inv req v es s \<longleftrightarrow>
     builder_inv (ar_attempt req) s \<and> down_inv es s
     \<and> tunnel_credit_inv v (initial_download_credit_bytes req) es s \<and> upload_inv v es s"

lemma runRawTunnel_opened:
  "runRawTunnel req v now target None = Inr s \<longleftrightarrow>
     s = \<lparr>tn_builder = \<lparr>bd_attempt = ar_attempt req, bd_seq = 2\<rparr>, tn_validator = v,
          tn_gate = newResponseCreditGate (initial_download_credit_bytes req), tn_grants = [],
          tn_main = TunnelSelect, tn_down = DownReading 0, tn_done = None, tn_ctxDone = False, tn_written = [],
          tn_published =
            [\<lparr>stream_seq = 1, sf_attempt = ar_attempt req, sf_payload = Some (StreamFrame_OutboundStart
                \<lparr>target_host = tt_Host target, target_port = tt_Port target, os_attempt = ar_attempt req,
                 worker_timestamp_ms = now\<rparr>)\<rparr>,
             \<lparr>stream_seq = 2, sf_attempt = ar_attempt req,
              sf_payload = Some (StreamFrame_ResponseStart rawTunnelEstablished)\<rparr>]\<rparr>"
  by (auto simp: runRawTunnel_def newTunnelFrameBuilder_def outboundStart_def responseStart_def next_frame_def Let_def)

lemma runRawTunnel_failure_not_run [simp]: "runRawTunnel req v now target (Some err) \<noteq> Inr s"
  by (auto simp: runRawTunnel_def Let_def split: prod.splits)

lemma tunnel_inv_start:
  assumes "runRawTunnel req v now target failure = Inr s"
  shows "tunnel_inv req v [] s \<and> tn_validator s = v"
proof -
  from assms have "failure = None" by (cases failure) simp_all
  with assms have "runRawTunnel req v now target None = Inr s" by simp
  then show ?thesis unfolding runRawTunnel_opened
    by (simp add: tunnel_inv_def builder_inv_def built_def down_inv_def tunnel_credit_inv_def upload_inv_def
        tunnel_frames_def frame_bytes_def GetData_def paid_def newResponseCreditGate_def gate_left_def
        upt_rec numeral_eq_Suc)
qed

lemma tunnel_inv_run:
  assumes "runRawTunnel req v now target failure = Inr s0" and "tunnel_run es s0 = Some s"
  shows "tunnel_inv req v es s"
proof (rule run_steps_invariant [OF assms(2)])
  show "tunnel_inv req v [] s0" using tunnel_inv_start [OF assms(1)] by simp
next
  fix ds u e u'
  assume r: "tunnel_run ds s0 = Some u" and "tunnel_inv req v ds u" and step: "tunnel_step e u = Some u'"
  moreover have "tn_validator u = gate_run validate_step v (tunnel_arrivals ds)"
    using tunnel_validator [OF r] tunnel_inv_start [OF assms(1)] by simp
  ultimately show "tunnel_inv req v (ds @ [e]) u'"
    unfolding tunnel_inv_def
    using builder_inv_step down_inv_step tunnel_credit_step upload_step by blast
qed

section \<open>Properties\<close>

definition sample_target :: TunnelTarget where
  "sample_target = \<lparr>tt_Host = ''h'', tt_Port = 443\<rparr>"

definition sample_tunnel :: tunnel_state where
  "sample_tunnel = projr (runRawTunnel (sample_request 0) (newStreamValidator 7 9 0 False 0) 0 sample_target None)"

lemma sample_opened:
  "runRawTunnel (sample_request 0) (newStreamValidator 7 9 0 False 0) 0 sample_target None = Inr sample_tunnel"
  by (simp add: sample_tunnel_def runRawTunnel_def newTunnelFrameBuilder_def outboundStart_def responseStart_def
      next_frame_def Let_def)

text \<open>A read and an accepted data frame, numbered in one order and published in the other.\<close>

definition sample_overtaking :: "tunnel_event list" where
  "sample_overtaking = [TnRead [1] None, TnFrame 0 (Some (data_frame 1 7 0 [5])) WriteOk, TnTake, TnDownPublish, TnPublish]"

lemma sample_tunnel_run:
  "\<exists>s. tunnel_run sample_overtaking sample_tunnel = Some s
    \<and> map stream_seq (tn_published s) = [1, 2, 4, 3] \<and> tn_written s = [5]"
proof -
  have "sample_tunnel = projr (Inr sample_tunnel)" by simp
  note tun = sample_opened [unfolded runRawTunnel_opened]
  show ?thesis
    by (subst tun) (simp add: sample_overtaking_def sample_request_def newResponseCreditGate_def downNext_def
      responseFrameDataBytes_def handleFrame_def accept_def validateFrameShell_def acceptData_def
      newStreamValidator_def isBodyRefFrame_def isTerminalFrame_def handleData_def publish_then_def
      uploadCredit_def next_frame_def Let_def downTake_def takeAvailable_def build_data_def ulen_def
      word_le_nat_alt GetData_def uint64FromInt_def)
qed

text \<open>
  C16: The frame builder serves both goroutines of a tunnel without losing or repeating a number: in
  every interleaving the frames built so far, published or about to be, carry the numbers from one
  up to the builder's counter, each once, and all carry the attempt of the assignment.
\<close>

theorem tunnel_numbers_exact:
  assumes "runRawTunnel req v now target failure = Inr s0" and "tunnel_run es s0 = Some s"
  shows "image_mset stream_seq (built s) = mset (map of_nat [1..<Suc (size (built s))])
    \<and> bd_seq (tn_builder s) = of_nat (size (built s)) \<and> (\<forall>f\<in>#built s. sf_attempt f = ar_attempt req)"
  using tunnel_inv_run [OF assms] by (simp add: tunnel_inv_def builder_inv_def)

theorem tunnel_numbers_exact_witness:
  "image_mset stream_seq (built sample_tunnel) = mset (map of_nat [1..<Suc (size (built sample_tunnel))])"
proof -
  have "tunnel_run [] sample_tunnel = Some sample_tunnel" by simp
  from tunnel_numbers_exact [OF sample_opened this] show ?thesis by blast
qed

text \<open>
  The numbers are not the order: numbering and publishing are two steps, so a data frame of the
  download can be published before a frame of the loop with a smaller number. The peer then sees a
  gap and its own validator refuses the frame.
\<close>

lemma tunnel_frames_can_overtake:
  "\<exists>s. tunnel_run sample_overtaking sample_tunnel = Some s \<and> map stream_seq (tn_published s) = [1, 2, 4, 3]
    \<and> \<not> wf_stream 7 allow 1 0 cr (tn_published s)"
proof -
  obtain s where r: "tunnel_run sample_overtaking sample_tunnel = Some s"
    and seqs: "map stream_seq (tn_published s) = [1, 2, 4, 3]"
    using sample_tunnel_run by (elim exE conjE) (erule (1) that)
  have "\<not> wf_stream 7 allow 1 0 cr (tn_published s)"
  proof
    assume wf: "wf_stream 7 allow 1 0 cr (tn_published s)"
    have "map unat (map stream_seq (tn_published s)) = [1, 2, 4, 3]" using seqs by simp
    then have four: "map (\<lambda>f. unat (stream_seq f)) (tn_published s) = [1, 2, 4, 3]" by (simp add: comp_def)
    have "length (map (\<lambda>f. unat (stream_seq f)) (tn_published s)) = 4" unfolding four by simp
    then have "length (tn_published s) = 4" by simp
    with four show False using wf_stream_seqs [OF wf] by (simp add: upt_rec)
  qed
  with r seqs show ?thesis by (intro exI [of _ s]) simp
qed

text \<open>
  C7: The download direction is faithful: what the tunnel has published, then what it holds, is what
  the connection delivered, in order and without loss (only a download that has ended, cancelled
  while it waited for credit, drops its rest); the offsets are the positions of the bytes. And with a
  limit every byte is paid for by the initial credit or an accepted credit frame.
\<close>

theorem tunnel_download_faithful:
  assumes "runRawTunnel req v now target failure = Inr s0" and "tunnel_run es s0 = Some s"
  shows "(\<exists>rest. bytes_read es = stream_bytes (tn_published s) @ down_pending (tn_down s) @ rest
        \<and> (rest \<noteq> [] \<longrightarrow> tn_down s = DownEnded))
    \<and> offsets_ok 0 (tn_published s)
    \<and> (initial_download_credit_bytes req \<noteq> 0 \<longrightarrow>
         length (stream_bytes (tn_published s))
           \<le> unat (initial_download_credit_bytes req) + sum_list (map download_credit (tunnel_frames v es)))"
proof -
  have inv: "down_inv es s" "tunnel_credit_inv v (initial_download_credit_bytes req) es s"
    using tunnel_inv_run [OF assms] by (simp_all add: tunnel_inv_def)
  then have "length (stream_bytes (tn_published s))
      \<le> unat (initial_download_credit_bytes req) + sum_list (map download_credit (tunnel_frames v es))"
    if "initial_download_credit_bytes req \<noteq> 0"
    using that by (simp add: tunnel_credit_inv_def paid_def)
  then show ?thesis using inv(1) by (simp add: down_inv_def)
qed

theorem tunnel_download_faithful_witness:
  "\<exists>s. tunnel_run sample_overtaking sample_tunnel = Some s \<and> offsets_ok 0 (tn_published s)"
proof -
  obtain s where r: "tunnel_run sample_overtaking sample_tunnel = Some s"
    using sample_tunnel_run by (elim exE conjE) (erule that)
  from tunnel_download_faithful [OF sample_opened r] r show ?thesis by (intro exI [of _ s]) simp
qed

text \<open>
  C14: The upload direction is faithful and bounded: the bytes written to the connection are the data
  of the accepted frames, in order (a failed write ends the loop), and there are never more of them
  than the upload credit the validator holds when the tunnel opens. The credit frames the tunnel
  sends back for them do not raise that bound, so a longer upload is refused whatever the peer does.
\<close>

theorem tunnel_upload_bounded:
  assumes "runRawTunnel req v now target failure = Inr s0" and "tunnel_run es s0 = Some s"
    and "at_position v a allow n off cr" and "\<not> sv_terminal v" and "sliced (tunnel_arrivals es)"
  shows "(\<exists>rest. stream_bytes (tunnel_frames v es) = tn_written s @ rest \<and> (rest \<noteq> [] \<longrightarrow> stopping (tn_main s)))
    \<and> length (tn_written s) \<le> cr"
proof -
  have inv: "upload_inv v es s" using tunnel_inv_run [OF assms(1,2)] by (simp add: tunnel_inv_def)
  have "length (stream_bytes (tunnel_frames v es)) \<le> cr"
    unfolding tunnel_frames_def by (rule wf_stream_credit [OF passed_wf [OF assms(3-5)]])
  then show ?thesis using inv by (auto simp: upload_inv_def)
qed

theorem tunnel_upload_bounded_witness:
  "\<exists>s. tunnel_run sample_overtaking sample_tunnel = Some s \<and> tn_written s = [5] \<and> length (tn_written s) \<le> 9"
proof -
  obtain s where r: "tunnel_run sample_overtaking sample_tunnel = Some s" and w: "tn_written s = [5]"
    using sample_tunnel_run by (elim exE conjE) (erule (1) that)
  have "sliced (tunnel_arrivals sample_overtaking)"
    by (simp add: sample_overtaking_def go_slice_def)
  with tunnel_upload_bounded [OF sample_opened r at_position_new [of 7 9 0 False 0] not_terminal_new this] r w
  show ?thesis by (intro exI [of _ s]) simp
qed

end
