(* ===== verification/Worker_Drain.thy ===== *)
theory Worker_Drain
  imports Worker_Safety Decoded_Safety Tunnel_Safety
begin

text \<open>
  What \<open>Serve\<close> can rely on when it waits for its requests after \<open>abandonInFlight\<close>
  (\<open>egress/assignment.go\<close>): the steps the requests and \<open>Serve\<close> itself still take, the work each
  state leaves, and when a request is blocked for good.
\<close>

section \<open>Own steps\<close>

text \<open>
  The steps the goroutines of the requests and \<open>Serve\<close> take without anything arriving from outside: an
  executor sends what it is sending and then returns, \<open>OpenTunnel\<close> returns, a context ends; no assignment is
  handled, no frame arrives, nothing is read from a tunnelled connection.
\<close>

fun own_exec :: "decoded_event \<Rightarrow> bool" where
  "own_exec (ExecSend f) = False"
| "own_exec (MainFrame now f) = False"
| "own_exec e = True"

fun own_tunnel :: "tunnel_event \<Rightarrow> bool" where
  "own_tunnel (TnRead bs err) = False"
| "own_tunnel (TnTick now) = False"
| "own_tunnel (TnFrame now f w) = False"
| "own_tunnel e = True"

fun own_request :: "request_event \<Rightarrow> bool" where
  "own_request (RqBody e) = (e = BodyCtxDone)"
| "own_request (RqExec e) = own_exec e"
| "own_request (RqTunnel e) = own_tunnel e"
| "own_request e = True"

fun own_event :: "worker_event \<Rightarrow> bool" where
  "own_event (EvRun i e) = own_request e"
| "own_event (EvFinish i) = True"
| "own_event (EvClose i) = True"
| "own_event EvReturn = True"
| "own_event e = False"

section \<open>Work\<close>

fun main_work :: "main_state \<Rightarrow> nat" where
  "main_work MainWaiting = 1"
| "main_work (MainGranting b) = 3"
| "main_work (MainCancelled reason) = 1"
| "main_work MainDone = 0"

fun exec_work :: "exec_state \<Rightarrow> nat" where
  "exec_work ExecRunning = 1"
| "exec_work (ExecSending a off ds) = 2 + length ds"
| "exec_work ExecReturned = 0"

definition decoded_work :: "decoded_state \<Rightarrow> nat" where
  "decoded_work s = main_work (ds_main s) + exec_work (ds_exec s) + length (ds_grants s) + (if ds_ctxDone s then 0 else 1)"

fun tunnel_main_work :: "tunnel_main \<Rightarrow> nat" where
  "tunnel_main_work TunnelSelect = 2"
| "tunnel_main_work (TunnelPublish f stop) = (if stop then 1 else 3)"
| "tunnel_main_work (TunnelGranting b) = 4"
| "tunnel_main_work TunnelReturned = 0"

fun down_work :: "tunnel_download \<Rightarrow> nat" where
  "down_work (DownSending off bs err) = 2 * max 1 (length bs)"
| "down_work (DownPublish f off bs err) = 2 * length bs + 1"
| "down_work d = 0"

definition tunnel_work :: "tunnel_state \<Rightarrow> nat" where
  "tunnel_work s = tunnel_main_work (tn_main s) + down_work (tn_down s) + length (tn_grants s) + (if tn_ctxDone s then 0 else 1)"

fun request_work :: "request_phase \<Rightarrow> nat" where
  "request_work Starting = 6"
| "request_work (Reading s v) = 5"
| "request_work (Opening start v) = 4"
| "request_work (Executing d) = decoded_work d"
| "request_work (Tunnelling t) = tunnel_work t"
| "request_work (Ended fs) = 0"

text \<open>
  Every request also has to be released and its subscription closed, and \<open>Serve\<close> has to return.
\<close>

definition drain_work :: "worker_state \<Rightarrow> nat" where
  "drain_work s = (\<Sum>a\<leftarrow>ws_running s. request_work (as_run a) + 2) + length (ws_closing s)
     + (if ws_serve s = Returned then 0 else 1)"

lemma takeAvailable_some:
  assumes "takeAvailable g limit [] = (CreditReady, n, g', es)" and "limit \<noteq> 0"
  shows "n \<noteq> 0"
  using assms by (auto simp: takeAvailable_def Let_def split: option.splits if_splits)

lemma exec_chunk_work:
  assumes "takeAvailable g (min (length ds) responseFrameDataBytes) [] = (CreditReady, n, g', es)"
  shows "exec_work (if drop n ds = [] then ExecRunning else ExecSending a off (drop n ds)) < 2 + length ds"
proof (cases "drop n ds = []")
  case False
  then have "ds \<noteq> []" by auto
  then have "n \<noteq> 0" using takeAvailable_some [OF assms] by (auto simp: responseFrameDataBytes_def)
  with False show ?thesis by auto
qed simp

lemma decoded_work_step:
  assumes "decoded_step e s = Some t" and "own_exec e" and "e = CtxDeadline \<Longrightarrow> \<not> ds_ctxDone s"
  shows "decoded_work t < decoded_work s"
proof (cases e)
  case ExecChunk
  with assms obtain a off ds where x: "ds_exec s = ExecSending a off ds" "execChunk a off ds s = Some t"
    by (auto split: exec_state.splits)
  from x(2) show ?thesis
  proof (cases rule: execChunk_Some)
    case (1 n g' es)
    then show ?thesis using exec_chunk_work [OF 1(1), of a "off + ulen (take n ds)"] x(1)
      by (simp add: decoded_work_def)
  qed
qed (use assms in \<open>auto simp: decoded_work_def dest: grant_length
       split: exec_state.splits option.splits list.splits main_state.splits if_splits\<close>)

lemma tunnel_work_step:
  assumes "tunnel_step e s = Some t" and "own_tunnel e" and "e = TnCancelCtx \<Longrightarrow> \<not> tn_ctxDone s"
  shows "tunnel_work t < tunnel_work s"
  using assms(1)
proof (cases rule: tunnel_step_cases)
  case (take off bs err n g' es f b)
  have "down_work (DownPublish f (off + uint64FromInt (int n)) (drop n bs) err) < down_work (DownSending off bs err)"
    using takeAvailable_some [OF take(3)] by (cases "bs = []") (auto simp: max_def)
  then show ?thesis using take by (simp add: tunnel_work_def)
next
  case (downpublish f off bs err)
  have "down_work (tn_down t) < down_work (tn_down s)"
    unfolding downpublish(2,3) by (cases bs) (auto simp: downNext_def max_def split: option.splits)
  moreover have "tn_main t = tn_main s" "tn_grants t = tn_grants s" "tn_ctxDone t = tn_ctxDone s"
    unfolding downpublish(3) by (auto simp: downNext_def split: option.splits)
  ultimately show ?thesis by (simp add: tunnel_work_def)
next
  case (finish p d)
  then show ?thesis by (simp add: tunnel_work_def publish_then_def split: prod.splits)
next
  case (unblocked b q)
  then show ?thesis using grant_length [OF unblocked(3)] by (simp add: tunnel_work_def)
next
  case (giveup off bs err)
  then show ?thesis by (auto simp: tunnel_work_def max_def)
qed (use assms(2,3) in \<open>auto simp: tunnel_work_def split: if_splits\<close>)

lemma readStep_work: "request_work (readStep R req s v BodyCtxDone) < 5"
  by (cases "complete s")
    (auto simp: readStep_def afterBody_def bodyStop_def decoded_work_def startDecodedExecution_def split: prod.splits)

lemma runRawTunnel_work: "runRawTunnel req v now target failure = Inr t \<Longrightarrow> tunnel_work t = 3"
  by (auto simp: runRawTunnel_def tunnel_work_def Let_def split: prod.splits option.splits)

lemma request_work_step:
  assumes "request_step R c req env e p = Some p'" and "own_request e"
  shows "request_work p' < request_work p"
proof (cases e)
  case (RqExec x)
  with assms obtain d d' where "p = Executing d" "p' = Executing d'" "decoded_step x d = Some d'" "own_exec x"
    "x = CtxDeadline \<Longrightarrow> \<not> ds_ctxDone d"
    by (auto split: request_phase.splits if_splits)
  then show ?thesis using decoded_work_step [of x d d'] by simp
next
  case (RqTunnel x)
  with assms obtain d d' where "p = Tunnelling d" "p' = Tunnelling d'" "tunnel_step x d = Some d'" "own_tunnel x"
    "x = TnCancelCtx \<Longrightarrow> \<not> tn_ctxDone d"
    by (auto split: request_phase.splits if_splits)
  then show ?thesis using tunnel_work_step [of x d d'] by simp
qed (use assms readStep_work in \<open>auto dest: runRawTunnel_work split: request_phase.splits if_splits sum.splits\<close>)

section \<open>Progress\<close>

text \<open>
  Blocked in \<open>grant\<close>: a credit frame has come while the channel of grants is full. This is the one place
  in which a request does not look at its context.
\<close>

fun grant_blocked :: "request_phase \<Rightarrow> bool" where
  "grant_blocked (Executing d) = (\<exists>b. ds_main d = MainGranting b \<and> grant (ds_gate d) b (ds_grants d) = None)"
| "grant_blocked (Tunnelling t) = (\<exists>b. tn_main t = TunnelGranting b \<and> grant (tn_gate t) b (tn_grants t) = None)"
| "grant_blocked p = False"

text \<open>What an executor that has returned left in its channel stays there until it is received.\<close>

definition result_waits :: "decoded_state \<Rightarrow> bool" where
  "result_waits s \<longleftrightarrow> (ds_exec s = ExecReturned \<and> ds_main s \<noteq> MainDone \<longrightarrow> ds_resultCh s \<noteq> None)"

fun phase_ok :: "request_phase \<Rightarrow> bool" where
  "phase_ok (Executing d) = result_waits d"
| "phase_ok p = True"

lemma result_waits_step:
  assumes "decoded_step e s = Some t" and "result_waits s"
  shows "result_waits t"
  using assms(1)
proof (cases rule: decoded_step_cases)
  case (frame now f)
  then show ?thesis using assms(2) by (cases rule: mainFrame_cases [of s now f]) (simp_all add: result_waits_def)
qed (use assms(2) in \<open>auto simp: result_waits_def\<close>)

lemma enter_ok: "phase_ok (enter req s v d)"
  by (cases d) (simp_all add: result_waits_def startDecodedExecution_def)

lemma request_step_ok:
  assumes "request_step R c req env e p = Some p'" and "phase_ok p"
  shows "phase_ok p'"
proof (cases e)
  case (RqBody x)
  then show ?thesis using assms
    by (auto simp: readStep_def enter_ok split: request_phase.splits if_splits prod.splits)
next
  case (RqExec x)
  then show ?thesis using assms result_waits_step by (auto split: request_phase.splits if_splits)
qed (use assms in \<open>auto split: request_phase.splits if_splits sum.splits\<close>)

lemma takeAvailable_now: "g = None \<or> (\<exists>gt. g = Some gt \<and> gate_credit gt \<noteq> 0) \<Longrightarrow>
    \<exists>n g' es. takeAvailable g limit [] = (CreditReady, n, g', es)"
  by (auto simp: takeAvailable_def Let_def)

text \<open>The executor can always go on: it sends, takes a grant, gives up or returns.\<close>

lemma executor_possible:
  assumes "ds_exec d \<noteq> ExecReturned"
  shows "\<exists>x d'. own_exec x \<and> decoded_step x d = Some d' \<and> (x = CtxDeadline \<longrightarrow> \<not> ds_ctxDone d)"
proof (cases "ds_exec d")
  case ExecRunning
  then show ?thesis by (intro exI [of _ "ExecReturn []"]) simp
next
  case (ExecSending a off ds)
  show ?thesis
  proof (cases "ds_gate d = None \<or> (\<exists>gt. ds_gate d = Some gt \<and> gate_credit gt \<noteq> 0)")
    case True
    from takeAvailable_now [OF this, of "min (length ds) responseFrameDataBytes"]
    show ?thesis using ExecSending by (intro exI [of _ ExecChunk]) (auto simp: execChunk_def Let_def)
  next
    case False
    then obtain gt where "ds_gate d = Some gt" "gate_credit gt = 0" by auto
    then show ?thesis using ExecSending
      by (cases "ds_ctxDone d") (auto intro: exI [of _ ExecGiveUp] exI [of _ CtxDeadline])
  qed
qed (use assms in simp)

lemma decoded_possible:
  assumes "result_waits d" and "ds_main d \<noteq> MainDone" and "\<not> grant_blocked (Executing d)"
  shows "\<exists>x d'. own_exec x \<and> decoded_step x d = Some d' \<and> (x = CtxDeadline \<longrightarrow> \<not> ds_ctxDone d)"
proof (cases "\<exists>b. ds_main d = MainGranting b")
  case True
  then show ?thesis using assms(3) by (intro exI [of _ MainGrantGoes]) auto
next
  case False
  then show ?thesis using assms(1,2) executor_possible [of d]
    by (cases "ds_exec d = ExecReturned"; cases "ds_main d") (auto simp: result_waits_def intro: exI [of _ MainResult])
qed

lemma tunnel_possible:
  assumes "tn_main t \<noteq> TunnelReturned" and "\<not> grant_blocked (Tunnelling t)"
  shows "\<exists>x t'. own_tunnel x \<and> tunnel_step x t = Some t' \<and> (x = TnCancelCtx \<longrightarrow> \<not> tn_ctxDone t)"
proof (cases "tn_main t")
  case TunnelSelect
  then show ?thesis by (cases "tn_ctxDone t") (auto intro: exI [of _ TnCtxDone] exI [of _ TnCancelCtx])
next
  case (TunnelPublish f stop)
  then show ?thesis by (intro exI [of _ TnPublish]) simp
next
  case (TunnelGranting b)
  then show ?thesis using assms(2) by (intro exI [of _ TnGrantGoes]) auto
qed (use assms(1) in simp)

text \<open>A request whose context can end goes on until it has ended, unless it is blocked in \<open>grant\<close>.\<close>

lemma request_possible:
  assumes "phase_ok p" and "\<not> request_ended p" and "\<not> grant_blocked p"
  shows "\<exists>e p'. own_request e \<and> request_step R True req env e p = Some p'"
proof (cases p)
  case Starting
  then show ?thesis by (intro exI [of _ "RqBegin 0"]) simp
next
  case (Reading s v)
  then show ?thesis by (intro exI [of _ "RqBody BodyCtxDone"]) simp
next
  case (Opening start v)
  then show ?thesis by (intro exI [of _ "RqOpened 0 \<lparr>tt_Host = [], tt_Port = 0\<rparr> (Some (fact_error ERROR_CODE_UPSTREAM_RESET []))"]) simp
next
  case (Executing d)
  then obtain x d' where "own_exec x" "decoded_step x d = Some d'" "x = CtxDeadline \<longrightarrow> \<not> ds_ctxDone d"
    using assms decoded_possible [of d] by auto
  then show ?thesis using Executing by (intro exI [of _ "RqExec x"]) auto
next
  case (Tunnelling t)
  then obtain x t' where "own_tunnel x" "tunnel_step x t = Some t'" "x = TnCancelCtx \<longrightarrow> \<not> tn_ctxDone t"
    using assms tunnel_possible [of t] by auto
  then show ?thesis using Tunnelling by (intro exI [of _ "RqTunnel x"]) auto
qed (use assms(2) in simp)

text \<open>No own step blocks a request in \<open>grant\<close> that was not blocked before.\<close>

lemma grant_blocks: "grant g b q = None \<longleftrightarrow> g \<noteq> None \<and> b \<noteq> 0 \<and> streamFrameChannelBuffer \<le> length q"
  by (auto simp: grant_def)

lemma takeAvailable_gate: "takeAvailable g limit evs = (st, n, g', es) \<Longrightarrow> g' = None \<longleftrightarrow> g = None"
  by (auto simp: takeAvailable_def Let_def split: option.splits prod.splits wait_status.splits if_splits)

lemma decoded_unblocked:
  assumes "decoded_step e s = Some t" and "own_exec e" and "\<not> grant_blocked (Executing s)"
  shows "\<not> grant_blocked (Executing t)"
  using assms(1)
proof (cases rule: decoded_step_cases)
  case (chunk a off ds n g' es)
  then show ?thesis using assms(3) takeAvailable_gate [OF chunk(3)] by (auto simp: grant_blocks)
qed (use assms(2,3) in \<open>auto simp: grant_blocks\<close>)

lemma tunnel_unblocked:
  assumes "tunnel_step e s = Some t" and "own_tunnel e" and "\<not> grant_blocked (Tunnelling s)"
  shows "\<not> grant_blocked (Tunnelling t)"
  using assms(1)
proof (cases rule: tunnel_step_cases)
  case (take off bs err n g' es f b)
  then show ?thesis using assms(3) takeAvailable_gate [OF take(3)] by (auto simp: grant_blocks)
next
  case (downpublish f off bs err)
  then show ?thesis using assms(3) by (auto simp: downNext_def split: option.splits)
next
  case (finish p d)
  then show ?thesis by (auto simp: publish_then_def split: prod.splits)
qed (use assms(2,3) in \<open>auto simp: grant_blocks\<close>)

lemma start_unblocked: "\<not> grant_blocked (enter req s v d)"
  by (cases d) (simp_all add: startDecodedExecution_def)

lemma request_unblocked:
  assumes "request_step R c req env e p = Some p'" and "own_request e" and "\<not> grant_blocked p"
  shows "\<not> grant_blocked p'"
proof (cases e)
  case (RqBody x)
  then show ?thesis using assms
    by (auto simp: readStep_def start_unblocked split: request_phase.splits if_splits prod.splits)
next
  case (RqOpened now target failure)
  then show ?thesis using assms
    by (auto simp: runRawTunnel_def Let_def split: request_phase.splits sum.splits option.splits prod.splits)
next
  case (RqExec x)
  then show ?thesis using assms decoded_unblocked
    by (auto split: request_phase.splits if_splits simp del: grant_blocked.simps)
next
  case (RqTunnel x)
  then show ?thesis using assms tunnel_unblocked
    by (auto split: request_phase.splits if_splits simp del: grant_blocked.simps)
qed (use assms in \<open>auto split: request_phase.splits if_splits\<close>)

section \<open>The worker\<close>

definition can_end :: "worker_state \<Rightarrow> assignment \<Rightarrow> bool" where
  "can_end s a \<longleftrightarrow> ctxEnds s a \<and> phase_ok (as_run a) \<and> \<not> grant_blocked (as_run a)"

definition drain_ready :: "worker_state \<Rightarrow> bool" where
  "drain_ready s \<longleftrightarrow>
     (ws_serve s = Abandoned \<or> ws_serve s = Returned) \<and> (\<forall>a\<in>set (ws_running s). can_end s a)"

lemma can_end_grows:
  "can_end s a \<Longrightarrow> set (ws_log s) \<subseteq> set (ws_log t) \<Longrightarrow> can_end t a"
  by (auto simp: can_end_def ctxEnds_def)

lemma can_end_run:
  assumes "can_end s a" and "request_step R c req env e (as_run a) = Some p" and "own_request e"
  shows "can_end s (a\<lparr>as_run := p\<rparr>)"
  using assms request_step_ok [OF assms(2)] request_unblocked [OF assms(2)] by (simp add: can_end_def ctxEnds_def)

lemma drain_ready_step:
  assumes "drain_ready s" and "own_event e" and "worker_step E e s = Some t"
  shows "drain_ready t"
  using assms(3)
proof (cases rule: worker_step_cases)
  case (run us a vs r p)
  then have own: "own_request r" and a: "can_end s a" using assms(1,2) by (auto simp: drain_ready_def)
  have "can_end t b" if "b \<in> set (ws_running s)" for b
    using assms(1) that by (auto simp: drain_ready_def run(4) intro: can_end_grows [of s])
  moreover have "can_end t (a\<lparr>as_run := p\<rparr>)"
    by (rule can_end_grows [OF can_end_run [OF a run(3) own]]) (simp add: run(4))
  ultimately show ?thesis using assms(1) run(2,4) by (auto simp: drain_ready_def)
next
  case (finish us a vs)
  then show ?thesis using assms(1) by (auto simp: drain_ready_def intro: can_end_grows [of s])
next
  case (close us n vs)
  then show ?thesis using assms(1) by (auto simp: drain_ready_def intro: can_end_grows [of s])
next
  case (drain d p as)
  then have "e = EvReturn" using assms(2) by (cases e) auto
  then show ?thesis using assms(1,3) by (auto simp: drain_ready_def split: if_splits)
qed (use assms(2) in auto)

lemma drain_work_step:
  assumes "drain_ready s" and "own_event e" and "worker_step E e s = Some t"
  shows "drain_work t < drain_work s"
  using assms(3)
proof (cases rule: worker_step_cases)
  case (run us a vs r p)
  then have "own_request r" using assms(2) by auto
  then show ?thesis using request_work_step [OF run(3)] by (simp add: drain_work_def run(2,4))
next
  case (drain d p as)
  then have "e = EvReturn" using assms(2) by (cases e) auto
  then show ?thesis using assms(3) by (auto simp: drain_work_def split: if_splits)
qed (use assms(2) in \<open>auto simp: drain_work_def\<close>)

lemma drain_possible:
  assumes "drain_ready s" and "ws_serve s \<noteq> Returned"
  shows "\<exists>e t. own_event e \<and> worker_step E e s = Some t"
proof (cases "ws_running s")
  case Nil
  then show ?thesis using assms
    by (cases "ws_closing s") (auto simp: drain_ready_def intro: exI [of _ EvReturn] exI [of _ "EvClose 0"])
next
  case (Cons a as)
  then have a: "can_end s a" using assms(1) by (simp add: drain_ready_def)
  show ?thesis
  proof (cases "request_ended (as_run a)")
    case True
    then show ?thesis using Cons by (intro exI [of _ "EvFinish 0"]) (simp add: Let_def)
  next
    case False
    with a request_possible [of "as_run a" "we_requests E" "assignRequest (as_env a)" "as_env a"] obtain e p
      where "own_request e" "request_step (we_requests E) True (assignRequest (as_env a)) (as_env a) e (as_run a) = Some p"
      by (auto simp: can_end_def)
    then show ?thesis using Cons a by (intro exI [of _ "EvRun 0 e"]) (simp add: can_end_def)
  qed
qed

interpretation drain: winding_down "worker_step E" own_event drain_work drain_ready "\<lambda>s. ws_serve s = Returned"
proof
  show "drain_ready s \<Longrightarrow> own_event e \<Longrightarrow> worker_step E e s = Some t \<Longrightarrow> drain_ready t" for s e t
    by (rule drain_ready_step)
  show "drain_ready s \<Longrightarrow> own_event e \<Longrightarrow> worker_step E e s = Some t \<Longrightarrow> drain_work t < drain_work s" for s e t
    by (rule drain_work_step)
  show "drain_ready s \<Longrightarrow> ws_serve s \<noteq> Returned \<Longrightarrow> \<exists>e t. own_event e \<and> worker_step E e s = Some t" for s
    by (rule drain_possible)
qed

section \<open>From the start of the worker\<close>




section \<open>Properties\<close>



text \<open>
  The hypothesis is needed. A request that is blocked in \<open>grant\<close> when its executor returns stays where it is,
  cancelled or not, and \<open>Serve\<close> does not return.
\<close>

definition has_stuck :: "worker_state \<Rightarrow> bool" where
  "has_stuck s \<longleftrightarrow> ws_serve s \<noteq> Returned \<and> (\<exists>a\<in>set (ws_running s). \<exists>d. as_run a = Executing d \<and> stuck d)"

lemma stuck_request_step:
  assumes "request_step R c req env e (Executing d) = Some p" and "stuck d"
  shows "\<exists>d'. p = Executing d' \<and> stuck d'"
  using assms stuck_step by (cases e) (auto split: if_splits)

lemma has_stuck_step:
  assumes "has_stuck s" and "worker_step E e s = Some t"
  shows "has_stuck t"
  using assms(2)
proof (cases rule: worker_step_cases)
  case (assign raw)
  then show ?thesis using assms(1)
    by (cases rule: admit_cases [of E raw "s\<lparr>ws_handler := HandlerIdle\<rparr>"]) (simp_all add: has_stuck_def)
next
  case (prepare subOk flushOk env)
  then show ?thesis using assms(1)
    by (cases rule: prepareStep_cases [OF prepare(2), of E subOk flushOk]) (auto simp: has_stuck_def)
next
  case (run us a vs r p)
  then show ?thesis using assms(1) stuck_request_step [of "we_requests E"] by (fastforce simp: has_stuck_def)
next
  case (finish us a vs)
  then show ?thesis using assms(1) by (auto simp: has_stuck_def stuck_def)
next
  case (drain d p as)
  then show ?thesis using assms(1) by (cases "p = Returned") (auto simp: has_stuck_def)
qed (use assms(1) in \<open>auto simp: has_stuck_def\<close>)

lemma stuck_request_keeps_serve:
  assumes "worker_run E es s = Some t" and "has_stuck s"
  shows "ws_serve t \<noteq> Returned"
proof -
  have "has_stuck t"
    by (rule run_steps_stable [where P = has_stuck, OF assms]) (rule has_stuck_step)
  then show ?thesis by (simp add: has_stuck_def)
qed

end
