(* ===== verification/Request_Run.thy ===== *)
theory Request_Run
  imports Decoded_Safety Tunnel_Safety
begin

text \<open>
  One request through the components it meets: the body reader, and then either the decoded
  execution or the tunnel, which go on with the validator the reader leaves behind.
\<close>

section \<open>How a request starts\<close>

text \<open>The outcomes of \<open>runDecodedRequest\<close>, with the read they come from.\<close>

definition request_validator :: "resolver option \<Rightarrow> AssignRequest \<Rightarrow> int \<Rightarrow> streamValidator" where
  "request_validator refs req now = newStreamValidator (ar_attempt req) (initial_upload_credit_bytes req)
     frameIdleTimeout (refs \<noteq> None) now"

definition request_read ::
  "resolver option \<Rightarrow> AssignRequest \<Rightarrow> Envelope \<Rightarrow> int \<Rightarrow> body_event list
     \<Rightarrow> body_result \<times> requestBodyState \<times> streamValidator \<times> body_event list" where
  "request_read refs req env now evs = readRequestBody refs (request_validator refs req now)
     (expected_upload_bytes req) (deployment_id env) (request_id env) evs"

lemma runDecodedRequest_read:
  "runDecodedRequest refs hasTunnels req env now evs = afterBody hasTunnels req (request_read refs req env now evs)"
  by (simp add: runDecodedRequest_def request_read_def request_validator_def)

lemma runDecodedRequest_cases:
  assumes "runDecodedRequest refs hasTunnels req env now evs = out"
  obtains
    (quiet) "out = StillReading \<or> out = StoppedSilently"
  | (failed) err s v rest where "out = ErrorPublished [errorFrame (ar_attempt req) err]"
      "request_read refs req env now evs = (BodyFailed err, s, v, rest)"
  | (unsupported) start body s v rest where "out = ErrorPublished [errorFrame (ar_attempt req) unsupportedMode]"
      "rs_mode start \<noteq> REQUEST_MODE_DECODED_HTTP" "rs_mode start \<noteq> REQUEST_MODE_RAW_TUNNEL \<or> \<not> hasTunnels"
      "request_read refs req env now evs = (BodyReady start body, s, v, rest)"
  | (tunnel) start body s v rest where "out = TunnelStarted start v" "rs_mode start = REQUEST_MODE_RAW_TUNNEL" "hasTunnels"
      "request_read refs req env now evs = (BodyReady start body, s, v, rest)"
  | (execution) start body s v rest where "out = ExecutionStarted start body v" "rs_mode start = REQUEST_MODE_DECODED_HTTP"
      "request_read refs req env now evs = (BodyReady start body, s, v, rest)"
  using assms unfolding runDecodedRequest_read
  by (auto simp: afterBody_def split: prod.splits body_result.splits if_splits)

text \<open>An error answer is a stream of its own: one terminal frame with number one.\<close>

lemma errorFrame_stream: "wf_stream a allow 1 0 cr [errorFrame a err] \<and> isTerminalFrame (errorFrame a err)"
  by (simp add: errorFrame_def isTerminalFrame_def isBodyRefFrame_def is_data_frame_def GetData_def frame_bytes_def)

lemma errorFrame_accepted:
  "gate_passed validate_step (newStreamValidator a cr idle allow t) [(t', Some (errorFrame a err))]
     = [(t', Some (errorFrame a err))]"
proof -
  have "sliced [(t', Some (errorFrame a err))]" by (simp add: errorFrame_def frame_bytes_def GetData_def)
  from passed_all_iff [OF at_position_new not_terminal_new this, THEN iffD2] show ?thesis
    using errorFrame_stream by (simp add: frames_of_def del: wf_stream.simps)
qed

text \<open>The request a body was read for: its start and its bytes, from the frames accepted.\<close>

definition request_of ::
  "resolver option \<Rightarrow> AssignRequest \<Rightarrow> Envelope \<Rightarrow> StreamFrame list \<Rightarrow> RequestStart \<Rightarrow> bytes \<Rightarrow> bool" where
  "request_of refs req env got start body \<longleftrightarrow>
     wf_stream (ar_attempt req) (refs \<noteq> None) 1 0 (unat (initial_upload_credit_bytes req)) got
     \<and> request_starts got \<noteq> [] \<and> start = last (request_starts got)
     \<and> assembled refs got body \<and> refs_in_scope refs (deployment_id env) (request_id env) (body_refs got)
     \<and> sint (expected_upload_bytes req) \<le> int (length body)"

lemma request_read_ready:
  assumes "request_read refs req env now evs = (BodyReady start body, s, v, rest)" and "sliced (arrivals_of evs)"
  shows "\<exists>used. evs = used @ rest \<and> request_of refs req env
    (frames_of (gate_passed validate_step (request_validator refs req now) (arrivals_of used))) start body"
  using ready_body_stream [OF assms(1) [unfolded request_read_def request_validator_def] assms(2)]
  by (auto simp: request_of_def Let_def request_validator_def)

text \<open>
  C11: What \<open>runDecodedRequest\<close> comes to, with and without a body-reference resolver. An error answer
  is a complete well-formed stream of the assignment's attempt, a single terminal frame, which the
  validator of the peer accepts; its error is the scope mismatch, the resolver's own error for a reference
  in scope, or the unsupported mode of the start received. The executor is started for a request in
  decoded mode only, the tunnel in raw mode only and only when there is a tunnel opener; in both cases the
  start is the last one received, and the body handed to the executor is assembled from the accepted
  frames, which are a well-formed stream within the upload credit.
\<close>

theorem decoded_request_outcomes:
  assumes "sliced (arrivals_of evs)"
  shows "\<exists>used rest. evs = used @ rest \<and>
    (let got = frames_of (gate_passed validate_step (request_validator refs req now) (arrivals_of used))
     in case runDecodedRequest refs hasTunnels req env now evs of
          ErrorPublished fs \<Rightarrow> \<exists>err. fs = [errorFrame (ar_attempt req) err]
            \<and> gate_passed validate_step (newStreamValidator (ar_attempt req) cr idle allow t) (map (\<lambda>f. (t', Some f)) fs)
                = map (\<lambda>f. (t', Some f)) fs \<and> isTerminalFrame (last fs)
            \<and> (own_failure refs (deployment_id env) (request_id env) err
               \<or> err = unsupportedMode \<and> (\<exists>start body. request_of refs req env got start body
                    \<and> rs_mode start \<noteq> REQUEST_MODE_DECODED_HTTP
                    \<and> (rs_mode start \<noteq> REQUEST_MODE_RAW_TUNNEL \<or> \<not> hasTunnels)))
        | ExecutionStarted start body v \<Rightarrow> rs_mode start = REQUEST_MODE_DECODED_HTTP \<and> request_of refs req env got start body
        | TunnelStarted start v \<Rightarrow> rs_mode start = REQUEST_MODE_RAW_TUNNEL \<and> hasTunnels
            \<and> (\<exists>body. request_of refs req env got start body)
        | _ \<Rightarrow> True)"
proof (cases rule: runDecodedRequest_cases [OF refl, of refs hasTunnels req env now evs,
      case_names quiet failed unsupported tunnel execution])
  case quiet
  then show ?thesis by (intro exI [of _ evs] exI [of _ "[]"]) auto
next
  case (failed err s v rest)
  have "own_failure refs (deployment_id env) (request_id env) err"
    using failed(2) unfolding request_read_def by (rule body_read_failures)
  then show ?thesis using failed errorFrame_accepted errorFrame_stream
    by (intro exI [of _ evs] exI [of _ "[]"]) (auto simp: Let_def)
next
  case (unsupported start body s v rest)
  from request_read_ready [OF unsupported(4) assms] obtain used where "evs = used @ rest" "request_of refs req env
      (frames_of (gate_passed validate_step (request_validator refs req now) (arrivals_of used))) start body" by blast
  then show ?thesis using unsupported errorFrame_accepted errorFrame_stream
    by (intro exI [of _ used] exI [of _ rest]) (auto simp: Let_def)
next
  case (tunnel start body s v rest)
  from request_read_ready [OF tunnel(4) assms] tunnel show ?thesis by (auto simp: Let_def)
next
  case (execution start body s v rest)
  from request_read_ready [OF execution(3) assms] execution show ?thesis by (auto simp: Let_def)
qed

text \<open>A request start of either mode, for the witnesses.\<close>

definition sample_begin :: "RequestMode \<Rightarrow> RequestStart" where
  "sample_begin m = \<lparr>rs_mode = m, rs_method = ''POST'', rs_url = ''u''\<rparr>"

definition sample_mode :: "RequestMode \<Rightarrow> StreamFrame" where
  "sample_mode m = \<lparr>stream_seq = 1, sf_attempt = 7, sf_payload = Some (StreamFrame_RequestStart (sample_begin m))\<rparr>"

definition sample_upload :: AssignRequest where
  "sample_upload = (sample_request 0)\<lparr>initial_upload_credit_bytes := 9\<rparr>"

lemma sample_mode_run:
  "\<exists>v. runDecodedRequest None True sample_upload empty_envelope 0 [BodyFrame 0 (Some (sample_mode m))] =
     (if m = REQUEST_MODE_DECODED_HTTP then ExecutionStarted (sample_begin m) [] v
      else if m = REQUEST_MODE_RAW_TUNNEL then TunnelStarted (sample_begin m) v
      else ErrorPublished [errorFrame 7 unsupportedMode])
    \<and> v = advance 0 (newStreamValidator 7 9 frameIdleTimeout False 0) (sample_mode m)"
  by (simp add: runDecodedRequest_def afterBody_def sample_request_def readRequestBody_def newRequestBodyState_def complete_def
      acceptBodyFrame_def accept_Some newStreamValidator_def acceptPayload_def ulen_def sample_begin_def
      sample_mode_def sample_upload_def isBodyRefFrame_def isTerminalFrame_def is_data_frame_def frame_bytes_def
      GetData_def Let_def)

text \<open>In the witness the second reference is out of scope.\<close>

theorem decoded_request_outcomes_witness:
  "runDecodedRequest (Some sample_resolver) True (sample_upload\<lparr>expected_upload_bytes := 3\<rparr>) (empty_envelope\<lparr>deployment_id := ''d'', request_id := ''r''\<rparr>)
       0 sample_scope_events = ErrorPublished [errorFrame 7 scopeMismatch]
   \<and> gate_passed validate_step (newStreamValidator 7 0 0 False 0) [(0, Some (errorFrame 7 scopeMismatch))]
       = [(0, Some (errorFrame 7 scopeMismatch))]"
proof -
  let ?env = "empty_envelope\<lparr>deployment_id := ''d'', request_id := ''r''\<rparr>"
  have r: "runDecodedRequest (Some sample_resolver) True (sample_upload\<lparr>expected_upload_bytes := 3\<rparr>) ?env 0 sample_scope_events
      = ErrorPublished [errorFrame 7 scopeMismatch]"
    by (simp add: runDecodedRequest_def afterBody_def sample_upload_def sample_request_def sample_scope_events_def
        body_eval sample_resolver_def Let_def word_le_nat_alt bodyStop_def)
  have "sliced (arrivals_of sample_scope_events)"
    by (simp add: sample_scope_events_def sample_start_def sample_ref_frame_def frame_bytes_def GetData_def)
  from decoded_request_outcomes [OF this, where refs = "Some sample_resolver"
      and req = "sample_upload\<lparr>expected_upload_bytes := 3\<rparr>" and now = 0 and hasTunnels = True and env = ?env
      and cr = 0 and idle = 0 and allow = False and t = 0 and t' = 0] r
  have "gate_passed validate_step (newStreamValidator 7 0 0 False 0) [(0, Some (errorFrame 7 scopeMismatch))]
      = [(0, Some (errorFrame 7 scopeMismatch))]"
    by (auto simp: Let_def sample_upload_def sample_request_def simp del: gate_passed.simps)
  with r show ?thesis by blast
qed

text \<open>
  C15: A request that becomes a tunnel keeps within the initial upload credit as a whole: the bytes of
  the frames accepted before the tunnel opened and the bytes written to the tunnel's connection
  together are at most the credit the assignment gave.
\<close>

theorem tunnelled_request_within_upload_credit:
  assumes "runDecodedRequest refs hasTunnels req env now evs = TunnelStarted start v"
    and "runRawTunnel req v t target failure = Inr s0" and "tunnel_run es s0 = Some s"
    and "sliced (arrivals_of evs)" and "sliced (tunnel_arrivals es)"
  shows "\<exists>used. (\<exists>rest. evs = used @ rest) \<and>
    length (stream_bytes (frames_of (gate_passed validate_step
      (newStreamValidator (ar_attempt req) (initial_upload_credit_bytes req) frameIdleTimeout (refs \<noteq> None) now)
      (arrivals_of used)))) + length (tn_written s) \<le> unat (initial_upload_credit_bytes req)"
proof -
  define w where
    "w = newStreamValidator (ar_attempt req) (initial_upload_credit_bytes req) frameIdleTimeout (refs \<noteq> None) now"
  have pos: "at_position w (ar_attempt req) (refs \<noteq> None) 1 0 (unat (initial_upload_credit_bytes req))" "\<not> sv_terminal w"
    unfolding w_def by (rule at_position_new not_terminal_new)+
  obtain body s' rest where "readRequestBody refs w (expected_upload_bytes req) (deployment_id env) (request_id env) evs
      = (BodyReady start body, s', v, rest)"
    unfolding w_def using assms(1)
    by (cases rule: runDecodedRequest_cases [OF assms(1)]) (auto simp: request_read_def request_validator_def)
  then obtain used where used: "evs = used @ rest" and v: "v = gate_run validate_step w (arrivals_of used)"
    using readBodyLoop_used unfolding readRequestBody_def by blast
  let ?xs = "arrivals_of used @ tunnel_arrivals es"
  have "sliced ?xs" using assms(4,5) by (auto simp: used sliced_def arrivals_sliced_append)
  then have "length (stream_bytes (frames_of (gate_passed validate_step w ?xs))) \<le> unat (initial_upload_credit_bytes req)"
    by (rule wf_stream_credit [OF passed_wf [OF pos]])
  moreover obtain more where "stream_bytes (tunnel_frames v es) = tn_written s @ more"
    using tunnel_inv_run [OF assms(2,3)] by (auto simp: tunnel_inv_def upload_inv_def)
  ultimately have "length (stream_bytes (frames_of (gate_passed validate_step w (arrivals_of used)))) + length (tn_written s)
      \<le> unat (initial_upload_credit_bytes req)"
    by (simp add: gate_passed_append v [symmetric] tunnel_frames_def frames_of_def)
  then show ?thesis using used unfolding w_def by blast
qed


theorem tunnelled_request_within_upload_credit_witness:
  "\<exists>v s0 s. runDecodedRequest None True sample_upload empty_envelope 0
       [BodyFrame 0 (Some (sample_mode REQUEST_MODE_RAW_TUNNEL))] = TunnelStarted (sample_begin REQUEST_MODE_RAW_TUNNEL) v
     \<and> runRawTunnel sample_upload v 0 sample_target None = Inr s0
     \<and> tunnel_run [TnFrame 0 (Some (data_frame 2 7 0 [5])) WriteOk] s0 = Some s
     \<and> tn_written s = [5] \<and> length (tn_written s) \<le> 9"
proof -
  let ?evs = "[BodyFrame 0 (Some (sample_mode REQUEST_MODE_RAW_TUNNEL))]"
  let ?es = "[TnFrame 0 (Some (data_frame 2 7 0 [5])) WriteOk]"
  obtain v where r: "runDecodedRequest None True sample_upload empty_envelope 0 ?evs
      = TunnelStarted (sample_begin REQUEST_MODE_RAW_TUNNEL) v"
      and v: "v = advance 0 (newStreamValidator 7 9 frameIdleTimeout False 0) (sample_mode REQUEST_MODE_RAW_TUNNEL)"
    using sample_mode_run [of REQUEST_MODE_RAW_TUNNEL] by auto
  obtain s0 where open_: "runRawTunnel sample_upload v 0 sample_target None = Inr s0" and s0: "tn_main s0 = TunnelSelect"
      "tn_validator s0 = v" "tn_written s0 = []"
    by (simp add: runRawTunnel_def Let_def case_prod_beta)
  have acc: "accept 0 v (Some (data_frame 2 7 0 [5])) = (frameAccepted, advance 0 v (data_frame 2 7 0 [5]))"
    by (rule accept_Some_acceptable)
      (simp add: v acceptable_Some sample_mode_def newStreamValidator_def data_frame_def isBodyRefFrame_def
        isTerminalFrame_def frame_bytes_def GetData_def is_data_frame_def ulen_def advance_def)
  obtain s where s: "tunnel_run ?es s0 = Some s" "tn_written s = [5]"
    by (simp add: s0 handleFrame_def acc [unfolded data_frame_def] handleData_def publish_then_def case_prod_beta
        data_frame_def Let_def)
  have "sliced (arrivals_of ?evs)" "sliced (tunnel_arrivals ?es)"
    by (simp_all add: sample_mode_def frame_bytes_def GetData_def go_slice_def)
  from tunnelled_request_within_upload_credit [OF r open_ s(1) this]
  have "length (tn_written s) \<le> unat (initial_upload_credit_bytes sample_upload)" by (elim exE conjE) simp
  then have "length (tn_written s) \<le> 9" by (simp add: sample_upload_def)
  with r open_ s show ?thesis by (intro exI [of _ v] exI [of _ s0] exI [of _ s] conjI)
qed

end
