(* ===== verification/Json.thy ===== *)
theory Json
  imports Go_Strings
begin

text \<open>
  What the sources use of \<open>encoding/json\<close>: the text of a value (\<open>json.Marshal\<close>), the parser behind
  \<open>json.Unmarshal\<close> with its limit on nesting, and the storing of a parsed value in a typed Go value.
  A text is a string of bytes. A decoder takes the value and what the Go variable holds before and gives
  what it holds afterwards, with a flag that is false when some part did not fit its type: as in
  Go, the other parts are stored all the same.
\<close>

section \<open>Values\<close>

datatype json =
  JNull | JBool bool | JNumber string | JString string | JArray "json list" | JObject "(string \<times> json) list"

section \<open>Texts of strings\<close>

abbreviation code :: "char \<Rightarrow> nat" where
  "code c \<equiv> of_char c"

definition quote_char :: char where
  "quote_char = CHR 0x22"

definition backslash :: char where
  "backslash = CHR 0x5C"

definition hex_char :: "nat \<Rightarrow> char" where
  "hex_char n = ''0123456789abcdef'' ! (n mod 16)"

definition hex_value :: "char \<Rightarrow> nat option" where
  "hex_value c =
     (if in_range 48 57 (code c) then Some (code c - 48)
      else if in_range 97 102 (code c) then Some (code c - 87)
      else if in_range 65 70 (code c) then Some (code c - 55)
      else None)"

definition u_escape :: "nat \<Rightarrow> string" where
  "u_escape n = [backslash, CHR ''u'', hex_char (n div 4096), hex_char (n div 256), hex_char (n div 16), hex_char n]"

definition short_escape :: "nat \<Rightarrow> char option" where
  "short_escape n =
     (if n = 34 \<or> n = 92 then Some (char_of n)
      else if n = 8 then Some (CHR ''b'') else if n = 12 then Some (CHR ''f'')
      else if n = 10 then Some (CHR ''n'') else if n = 13 then Some (CHR ''r'')
      else if n = 9 then Some (CHR ''t'') else None)"

definition html_safe :: "nat \<Rightarrow> bool" where
  "html_safe n \<longleftrightarrow> 32 \<le> n \<and> n < 128 \<and> n \<notin> {34, 92, 60, 62, 38}"

text \<open>One step of the encoder: the bytes of the first rune of a text, and how many bytes it took.\<close>

definition quote_step :: "string \<Rightarrow> string \<times> nat" where
  "quote_step s =
     (let n = code (hd s); (r, w) = decodeRune (map of_char s) in
      if n < 128 then
        ((if html_safe n then [hd s]
          else case short_escape n of Some e \<Rightarrow> [backslash, e] | None \<Rightarrow> u_escape n), 1)
      else if r = RuneError \<and> w = 1 then (u_escape RuneError, 1)
      else if r = 0x2028 \<or> r = 0x2029 then (u_escape r, w)
      else (take w s, w))"

lemma snd_quote_step: "s \<noteq> [] \<Longrightarrow> snd (quote_step s) = snd (decodeRune (map of_char s))"
  by (cases s) (auto simp: quote_step_def Let_def case_prod_beta)

lemma quote_step_pos: "0 < snd (quote_step s)"
  by (auto simp: quote_step_def Let_def case_prod_beta decodeRune_width_pos)

function quote_body :: "string \<Rightarrow> string" where
  "quote_body s = (if s = [] then [] else fst (quote_step s) @ quote_body (drop (snd (quote_step s)) s))"
  by pat_completeness auto
termination
  by (relation "measure length") (auto intro!: diff_less quote_step_pos)

declare quote_body.simps [simp del]

definition quote_string :: "string \<Rightarrow> string" where
  "quote_string s = [quote_char] @ quote_body s @ [quote_char]"

section \<open>Texts of values\<close>

function show_nat :: "nat \<Rightarrow> string" where
  "show_nat n = (if n < 10 then [char_of (48 + n)] else show_nat (n div 10) @ [char_of (48 + n mod 10)])"
  by pat_completeness auto
termination
  by (relation "measure id") auto

declare show_nat.simps [simp del]

definition show_int :: "int \<Rightarrow> string" where
  "show_int i = (if i < 0 then CHR ''-'' # show_nat (nat (- i)) else show_nat (nat i))"

fun print_json :: "json \<Rightarrow> string"
  and print_elements :: "json list \<Rightarrow> string"
  and print_members :: "(string \<times> json) list \<Rightarrow> string"
  where
  "print_json JNull = ''null''"
| "print_json (JBool b) = (if b then ''true'' else ''false'')"
| "print_json (JNumber l) = l"
| "print_json (JString s) = quote_string s"
| "print_json (JArray js) = ''['' @ print_elements js @ '']''"
| "print_json (JObject ms) = ''{'' @ print_members ms @ ''}''"
| "print_elements [] = []"
| "print_elements [j] = print_json j"
| "print_elements (j # js) = print_json j @ '','' @ print_elements js"
| "print_members [] = []"
| "print_members [(k, j)] = quote_string k @ '':'' @ print_json j"
| "print_members ((k, j) # ms) = quote_string k @ '':'' @ print_json j @ '','' @ print_members ms"

section \<open>Lexing\<close>

definition is_space :: "char \<Rightarrow> bool" where
  "is_space c \<longleftrightarrow> code c \<in> {32, 9, 13, 10}"

definition skip_ws :: "string \<Rightarrow> string" where
  "skip_ws s = dropWhile is_space s"

definition is_digit :: "char \<Rightarrow> bool" where
  "is_digit c \<longleftrightarrow> in_range 48 57 (code c)"

text \<open>The raw text between the quotes and what follows the closing one.\<close>

fun lex_string :: "string \<Rightarrow> (string \<times> string) option" where
  "lex_string [] = None"
| "lex_string (c # s) =
     (if c = quote_char then Some ([], s)
      else if c = backslash then
        (case s of
           [] \<Rightarrow> None
         | e # s' \<Rightarrow>
             if e = CHR ''u'' then
               (case s' of
                  h1 # h2 # h3 # h4 # t \<Rightarrow>
                    if list_all (\<lambda>h. hex_value h \<noteq> None) [h1, h2, h3, h4]
                    then map_option (\<lambda>(a, b). (c # e # h1 # h2 # h3 # h4 # a, b)) (lex_string t) else None
                | _ \<Rightarrow> None)
             else if code e \<in> {98, 102, 110, 114, 116, 92, 47, 34}
             then map_option (\<lambda>(a, b). (c # e # a, b)) (lex_string s') else None)
      else if code c < 32 then None
      else map_option (\<lambda>(a, b). (c # a, b)) (lex_string s))"

definition lex_digits :: "string \<Rightarrow> (string \<times> string) option" where
  "lex_digits s = (if takeWhile is_digit s = [] then None else Some (takeWhile is_digit s, dropWhile is_digit s))"

text \<open>The three parts of a number; a fraction or exponent is read when its first character is there.\<close>

definition lex_integer :: "string \<Rightarrow> (string \<times> string) option" where
  "lex_integer s = (case s of c # r \<Rightarrow> if c = CHR ''0'' then Some ([c], r) else lex_digits s | [] \<Rightarrow> None)"

definition lex_fraction :: "string \<Rightarrow> (string \<times> string) option" where
  "lex_fraction s =
     (case s of
        c # r \<Rightarrow> if c = CHR ''.'' then map_option (\<lambda>(a, b). (c # a, b)) (lex_digits r) else Some ([], s)
      | [] \<Rightarrow> Some ([], s))"

definition lex_exponent :: "string \<Rightarrow> (string \<times> string) option" where
  "lex_exponent s =
     (case s of
        c # r \<Rightarrow>
          if c = CHR ''e'' \<or> c = CHR ''E'' then
            (case r of
               d # r' \<Rightarrow>
                 if d = CHR ''+'' \<or> d = CHR ''-'' then map_option (\<lambda>(a, b). (c # d # a, b)) (lex_digits r')
                 else map_option (\<lambda>(a, b). (c # a, b)) (lex_digits r)
             | [] \<Rightarrow> None)
          else Some ([], s)
      | [] \<Rightarrow> Some ([], s))"

definition lex_number :: "string \<Rightarrow> (string \<times> string) option" where
  "lex_number s =
     (let (sign, r) = (case s of c # r \<Rightarrow> if c = CHR ''-'' then ([c], r) else ([], s) | [] \<Rightarrow> ([], s)) in
      case lex_integer r of None \<Rightarrow> None | Some (i, r1) \<Rightarrow>
      case lex_fraction r1 of None \<Rightarrow> None | Some (f, r2) \<Rightarrow>
      case lex_exponent r2 of None \<Rightarrow> None | Some (e, r3) \<Rightarrow> Some (sign @ i @ f @ e, r3))"

section \<open>Unquoting\<close>

text \<open>\<open>utf8.EncodeRune\<close> and \<open>getu4\<close>.\<close>

definition encodeRune :: "nat \<Rightarrow> string" where
  "encodeRune r =
     map char_of
       (if r < 0x80 then [r]
        else if r < 0x800 then [0xC0 + r div 64, 0x80 + r mod 64]
        else if r < 0x10000 then [0xE0 + r div 4096, 0x80 + r div 64 mod 64, 0x80 + r mod 64]
        else [0xF0 + r div 262144, 0x80 + r div 4096 mod 64, 0x80 + r div 64 mod 64, 0x80 + r mod 64])"

definition hex4 :: "string \<Rightarrow> nat option" where
  "hex4 s =
     (case s of
        h1 # h2 # h3 # h4 # _ \<Rightarrow>
          (case (hex_value h1, hex_value h2, hex_value h3, hex_value h4) of
             (Some a, Some b, Some c, Some d) \<Rightarrow> Some (a * 4096 + b * 256 + c * 16 + d)
           | _ \<Rightarrow> None)
      | _ \<Rightarrow> None)"

definition getu4 :: "string \<Rightarrow> nat option" where
  "getu4 s = (case s of c # e # r \<Rightarrow> if c = backslash \<and> e = CHR ''u'' then hex4 r else None | _ \<Rightarrow> None)"

text \<open>The rune of an escape and the number of bytes it takes: a surrogate pair takes both escapes.\<close>

definition unquote_u :: "string \<Rightarrow> nat \<times> nat" where
  "unquote_u s =
     (case getu4 s of
        None \<Rightarrow> (RuneError, 6)
      | Some rr \<Rightarrow>
          if in_range 0xD800 0xDFFF rr then
            (case getu4 (drop 6 s) of
               Some r1 \<Rightarrow>
                 if rr < 0xDC00 \<and> in_range 0xDC00 0xDFFF r1
                 then ((rr - 0xD800) * 1024 + (r1 - 0xDC00) + 0x10000, 12) else (RuneError, 6)
             | None \<Rightarrow> (RuneError, 6))
          else (rr, 6))"

definition unescape :: "char \<Rightarrow> char" where
  "unescape e =
     (if e = CHR ''b'' then char_of (8::nat) else if e = CHR ''f'' then char_of (12::nat)
      else if e = CHR ''n'' then char_of (10::nat) else if e = CHR ''r'' then char_of (13::nat)
      else if e = CHR ''t'' then char_of (9::nat) else e)"

definition unquote_step :: "string \<Rightarrow> string \<times> nat" where
  "unquote_step s =
     (if hd s = backslash then
        (case s of
           _ # e # _ \<Rightarrow>
             if e = CHR ''u'' then (encodeRune (fst (unquote_u s)), snd (unquote_u s)) else ([unescape e], 2)
         | _ \<Rightarrow> ([], 1))
      else if code (hd s) < 128 then ([hd s], 1)
      else (encodeRune (fst (decodeRune (map of_char s))), snd (decodeRune (map of_char s))))"

lemma unquote_step_pos: "0 < snd (unquote_step s)"
  by (auto simp: unquote_step_def unquote_u_def decodeRune_width_pos split: list.splits option.splits)

function unquote :: "string \<Rightarrow> string" where
  "unquote s = (if s = [] then [] else fst (unquote_step s) @ unquote (drop (snd (unquote_step s)) s))"
  by pat_completeness auto
termination
  by (relation "measure length") (auto intro!: diff_less unquote_step_pos)

declare unquote.simps [simp del]

section \<open>Integers\<close>

text \<open>\<open>strconv.ParseUint\<close> and \<open>strconv.ParseInt\<close> on the text of a JSON number, before the check of the range.\<close>

definition digits_value :: "string \<Rightarrow> nat" where
  "digits_value s = foldl (\<lambda>n c. 10 * n + (code c - 48)) 0 s"

definition parse_nat :: "string \<Rightarrow> nat option" where
  "parse_nat s = (if s \<noteq> [] \<and> list_all is_digit s then Some (digits_value s) else None)"

definition parse_int :: "string \<Rightarrow> int option" where
  "parse_int s =
     (case s of
        c # r \<Rightarrow> if c = CHR ''-'' then map_option (\<lambda>n. - int n) (parse_nat r) else map_option int (parse_nat s)
      | [] \<Rightarrow> None)"

section \<open>Parsing\<close>

text \<open>
  The parser of values, elements and members. The first argument is fuel: every call takes one unit, and
  \<open>2 * length s + 2\<close> of them are enough for a text \<open>s\<close> (lemma \<open>parse_fuel_enough\<close>). The
  second is the number of brackets that may still be opened.
\<close>

definition maxNestingDepth :: nat where
  "maxNestingDepth = 10000"

definition parse_word :: "string \<Rightarrow> json \<Rightarrow> string \<Rightarrow> (json \<times> string) option" where
  "parse_word w j s = (if HasPrefix s w then Some (j, drop (length w) s) else None)"

text \<open>A value that holds no others, at its first character.\<close>

definition parse_scalar :: "string \<Rightarrow> (json \<times> string) option" where
  "parse_scalar s =
     (if hd s = quote_char then map_option (\<lambda>(a, b). (JString (unquote a), b)) (lex_string (tl s))
      else if hd s = CHR ''t'' then parse_word ''true'' (JBool True) s
      else if hd s = CHR ''f'' then parse_word ''false'' (JBool False) s
      else if hd s = CHR ''n'' then parse_word ''null'' JNull s
      else map_option (\<lambda>(l, t). (JNumber l, t)) (lex_number s))"

fun parse_value :: "nat \<Rightarrow> nat \<Rightarrow> string \<Rightarrow> (json \<times> string) option"
  and parse_elements :: "nat \<Rightarrow> nat \<Rightarrow> string \<Rightarrow> (json list \<times> string) option"
  and parse_members :: "nat \<Rightarrow> nat \<Rightarrow> string \<Rightarrow> ((string \<times> json) list \<times> string) option"
  where
  "parse_value 0 d s = None"
| "parse_value (Suc n) d s =
     (case skip_ws s of
        [] \<Rightarrow> None
      | c # r \<Rightarrow>
          if c = CHR ''['' then
            (if d = 0 then None
             else case skip_ws r of
                    [] \<Rightarrow> None
                  | b # r' \<Rightarrow>
                      if b = CHR '']'' then Some (JArray [], r')
                      else map_option (\<lambda>(js, t). (JArray js, t)) (parse_elements n (d - 1) (b # r')))
          else if c = CHR ''{'' then
            (if d = 0 then None
             else case skip_ws r of
                    [] \<Rightarrow> None
                  | b # r' \<Rightarrow>
                      if b = CHR ''}'' then Some (JObject [], r')
                      else map_option (\<lambda>(ms, t). (JObject ms, t)) (parse_members n (d - 1) (b # r')))
          else parse_scalar (c # r))"
| "parse_elements 0 d s = None"
| "parse_elements (Suc n) d s =
     (case parse_value n d s of
        None \<Rightarrow> None
      | Some (j, r) \<Rightarrow>
          (case skip_ws r of
             [] \<Rightarrow> None
           | c # r' \<Rightarrow>
               if c = CHR '','' then map_option (\<lambda>(js, t). (j # js, t)) (parse_elements n d r')
               else if c = CHR '']'' then Some ([j], r') else None))"
| "parse_members 0 d s = None"
| "parse_members (Suc n) d s =
     (case skip_ws s of
        [] \<Rightarrow> None
      | q # r0 \<Rightarrow>
          if q \<noteq> quote_char then None
          else (case lex_string r0 of
             None \<Rightarrow> None
           | Some (k, r1) \<Rightarrow>
               (case skip_ws r1 of
                  [] \<Rightarrow> None
                | b # r2 \<Rightarrow>
                    if b \<noteq> CHR '':'' then None
                    else (case parse_value n d r2 of
                       None \<Rightarrow> None
                     | Some (j, r) \<Rightarrow>
                         (case skip_ws r of
                            [] \<Rightarrow> None
                          | c # r' \<Rightarrow>
                              if c = CHR '','' then map_option (\<lambda>(ms, t). ((unquote k, j) # ms, t)) (parse_members n d r')
                              else if c = CHR ''}'' then Some ([(unquote k, j)], r') else None)))))"

definition parse_json :: "string \<Rightarrow> json option" where
  "parse_json s =
     (case parse_value (2 * length s + 2) maxNestingDepth s of
        None \<Rightarrow> None
      | Some (j, r) \<Rightarrow> if skip_ws r = [] then Some j else None)"

section \<open>Storing a value in a Go variable\<close>

type_synonym 'a decoder = "json \<Rightarrow> 'a \<Rightarrow> bool \<times> 'a"

definition dec_string :: "string decoder" where
  "dec_string j v = (case j of JString s \<Rightarrow> (True, s) | JNull \<Rightarrow> (True, v) | _ \<Rightarrow> (False, v))"

definition dec_bool :: "bool decoder" where
  "dec_bool j v = (case j of JBool b \<Rightarrow> (True, b) | JNull \<Rightarrow> (True, v) | _ \<Rightarrow> (False, v))"

text \<open>An integer out of the range of its type is a type error and leaves the variable alone.\<close>

definition dec_i64 :: "i64 decoder" where
  "dec_i64 j v =
     (case j of
        JNumber l \<Rightarrow>
          (case parse_int l of
             Some i \<Rightarrow> if - (2 ^ 63) \<le> i \<and> i < 2 ^ 63 then (True, word_of_int i) else (False, v)
           | None \<Rightarrow> (False, v))
      | JNull \<Rightarrow> (True, v)
      | _ \<Rightarrow> (False, v))"

definition dec_u64 :: "u64 decoder" where
  "dec_u64 j v =
     (case j of
        JNumber l \<Rightarrow>
          (case parse_nat l of
             Some n \<Rightarrow> if n < 2 ^ 64 then (True, of_nat n) else (False, v)
           | None \<Rightarrow> (False, v))
      | JNull \<Rightarrow> (True, v)
      | _ \<Rightarrow> (False, v))"

text \<open>A pointer is allocated when it is nil; the elements of a slice are stored over those it has.\<close>

definition dec_ptr :: "'a decoder \<Rightarrow> 'a \<Rightarrow> 'a option decoder" where
  "dec_ptr d zero j v =
     (if j = JNull then (True, None)
      else let (ok, x) = d j (case v of None \<Rightarrow> zero | Some y \<Rightarrow> y) in (ok, Some x))"

fun dec_elements :: "'a decoder \<Rightarrow> 'a \<Rightarrow> json list \<Rightarrow> 'a list \<Rightarrow> bool \<times> 'a list" where
  "dec_elements d zero [] v = (True, [])"
| "dec_elements d zero (j # js) v =
     (let (ok, x) = d j (case v of [] \<Rightarrow> zero | y # ys \<Rightarrow> y);
          (ok', xs) = dec_elements d zero js (tl v) in (ok \<and> ok', x # xs))"

definition dec_list :: "'a decoder \<Rightarrow> 'a \<Rightarrow> 'a list decoder" where
  "dec_list d zero j v =
     (case j of JArray js \<Rightarrow> dec_elements d zero js v | JNull \<Rightarrow> (True, []) | _ \<Rightarrow> (False, v))"

text \<open>A map from strings to strings; a value of the wrong type stores the empty string.\<close>

fun dec_entries :: "(string \<times> json) list \<Rightarrow> (string \<rightharpoonup> string) \<Rightarrow> bool \<times> (string \<rightharpoonup> string)" where
  "dec_entries [] v = (True, v)"
| "dec_entries ((k, j) # ms) v =
     (let (ok, x) = dec_string j []; (ok', w) = dec_entries ms (v(k \<mapsto> x)) in (ok \<and> ok', w))"

definition dec_map :: "(string \<rightharpoonup> string) decoder" where
  "dec_map j v = (case j of JObject ms \<Rightarrow> dec_entries ms v | JNull \<Rightarrow> (True, Map.empty) | _ \<Rightarrow> (False, v))"

text \<open>
  The field of a key: by its exact name, else by its name up to case. The folding is the one that
  matters against ASCII names: the capitals, and the two letters outside ASCII that fold into it.
\<close>

fun fold_name :: "string \<Rightarrow> string" where
  "fold_name [] = []"
| "fold_name (c # s) =
     (if code c = 0xC5 \<and> map of_char (take 1 s) = [0xBF :: nat] then CHR ''S'' # fold_name (drop 1 s)
      else if code c = 0xE2 \<and> map of_char (take 2 s) = [0x84 :: nat, 0xAA] then CHR ''K'' # fold_name (drop 2 s)
      else (if in_range 97 122 (code c) then char_of (code c - 32) else c) # fold_name s)"

definition find_field :: "(string \<times> 'd) list \<Rightarrow> string \<Rightarrow> 'd option" where
  "find_field fs k =
     (case map_of fs k of
        Some d \<Rightarrow> Some d
      | None \<Rightarrow> map_of (map (\<lambda>(n, d). (fold_name n, d)) fs) (fold_name k))"

fun dec_fields :: "(string \<times> 'a decoder) list \<Rightarrow> (string \<times> json) list \<Rightarrow> 'a \<Rightarrow> bool \<times> 'a" where
  "dec_fields fs [] v = (True, v)"
| "dec_fields fs ((k, j) # ms) v =
     (case find_field fs k of
        None \<Rightarrow> dec_fields fs ms v
      | Some d \<Rightarrow> (let (ok, x) = d j v; (ok', y) = dec_fields fs ms x in (ok \<and> ok', y)))"

definition dec_struct :: "(string \<times> 'a decoder) list \<Rightarrow> 'a decoder" where
  "dec_struct fs j v =
     (case j of JObject ms \<Rightarrow> dec_fields fs ms v | JNull \<Rightarrow> (True, v) | _ \<Rightarrow> (False, v))"

text \<open>A decoder of a field, from its selector and its update.\<close>

definition dec_field :: "'b decoder \<Rightarrow> ('a \<Rightarrow> 'b) \<Rightarrow> ('b \<Rightarrow> 'a \<Rightarrow> 'a) \<Rightarrow> 'a decoder" where
  "dec_field d get upd j v = (let (ok, x) = d j (get v) in (ok, upd x v))"

datatype json_error = SyntaxError | UnmarshalTypeError

definition json_Unmarshal :: "'a decoder \<Rightarrow> string \<Rightarrow> 'a \<Rightarrow> json_error option \<times> 'a" where
  "json_Unmarshal d raw v =
     (case parse_json raw of
        None \<Rightarrow> (Some SyntaxError, v)
      | Some j \<Rightarrow> (let (ok, x) = d j v in (if ok then None else Some UnmarshalTypeError, x)))"

text \<open>The member a field with \<open>omitempty\<close> gives: none when its value is empty.\<close>

definition omitempty :: "bool \<Rightarrow> string \<Rightarrow> json \<Rightarrow> (string \<times> json) list" where
  "omitempty absent k j = (if absent then [] else [(k, j)])"

end
