(* ===== verification/Json_Roundtrip.thy ===== *)
theory Json_Roundtrip
  imports Json
begin

text \<open>
  The laws of the JSON codec that the client rests on: the fuel of the parser is enough for every
  text, and a printed value whose strings are valid UTF-8 is parsed back to itself.
\<close>

section \<open>Runes\<close>

text \<open>Valid UTF-8: no byte is decoded as an error.\<close>

function valid_utf8 :: "string \<Rightarrow> bool" where
  "valid_utf8 s \<longleftrightarrow>
     (if s = [] then True
      else decodeRune (map of_char s) \<noteq> (RuneError, 1)
        \<and> valid_utf8 (drop (snd (decodeRune (map of_char s))) s))"
  by pat_completeness auto
termination
  by (relation "measure length") (auto intro!: diff_less decodeRune_width_pos)

declare valid_utf8.simps [simp del]

text \<open>ASCII is valid.\<close>

lemma valid_utf8_ascii: "list_all (\<lambda>c. code c < 128) s \<Longrightarrow> valid_utf8 s"
proof (induction s)
  case (Cons c s)
  have "code c \<noteq> RuneError" using Cons.prems by (auto simp: RuneError_def)
  then show ?case using Cons by (simp add: valid_utf8.simps [of "c # s"])
qed (simp add: valid_utf8.simps)

lemma in_range_iff: "in_range lo hi b \<longleftrightarrow> lo \<le> b \<and> b \<le> hi"
  by (simp add: in_range_def)

text \<open>The six-bit digits of a sum of shifted digits.\<close>

lemma digits64:
  fixes a b :: nat
  assumes "b < 64"
  shows "(a * 64 + b) div 64 = a" and "(a * 64 + b) mod 64 = b"
  using assms by auto

lemma decode2_encode:
  assumes "decode2 b0 bs = (r, w)" and "w \<noteq> 1" and "in_range 0xC2 0xDF b0"
  shows "w = 2 \<and> 2 \<le> length (b0 # bs) \<and> encodeRune r = map char_of (take 2 (b0 # bs)) \<and> 0x80 \<le> r"
proof (cases "(b0, bs)" rule: decode2.cases)
  case (1 b0' b1 bs')
  define x y where "x = b0 - 0xC0" and "y = b1 - 0x80"
  have r: "r = x * 64 + y" "w = 2" and y: "b1 = 0x80 + y" "y < 64" and x: "b0 = 0xC0 + x" "2 \<le> x" "x < 32"
    using 1 assms by (auto simp: in_range_iff x_def y_def split: if_splits)
  show ?thesis using 1 r x y digits64 [OF y(2), of x] by (simp add: encodeRune_def)
qed (use assms in auto)

lemma decode3_encode:
  assumes "decode3 b0 bs = (r, w)" and "w \<noteq> 1" and "in_range 0xE0 0xEF b0"
  shows "w = 3 \<and> 3 \<le> length (b0 # bs) \<and> encodeRune r = map char_of (take 3 (b0 # bs)) \<and> 0x80 \<le> r"
proof (cases "(b0, bs)" rule: decode3.cases)
  case (1 b0' b1 b2 bs')
  define x y z where "x = b0 - 0xE0" and "y = b1 - 0x80" and "z = b2 - 0x80"
  have r: "r = x * 4096 + y * 64 + z" "w = 3" and z: "b2 = 0x80 + z" "z < 64" and y: "b1 = 0x80 + y" "y < 64"
    and x: "b0 = 0xE0 + x" "x < 16" and low: "x = 0 \<Longrightarrow> 32 \<le> y"
    using 1 assms by (auto simp: in_range_iff x_def y_def z_def split: if_splits)
  have r': "r = (x * 64 + y) * 64 + z" using r(1) by simp
  have d: "r div 64 = x * 64 + y" "r mod 64 = z" unfolding r' using digits64 [OF z(2)] by blast+
  have "r div 4096 = r div 64 div 64" by (simp add: div_mult2_eq [symmetric])
  then have d': "r div 4096 = x" "r div 64 mod 64 = y" unfolding d(1) using digits64 [OF y(2), of x] by auto
  have "r < 0x10000" "0x800 \<le> r" using x y(2) z(2) low unfolding r(1) by (cases "x = 0"; simp)+
  then show ?thesis using 1 r(2) x y z d(2) d' by (simp add: encodeRune_def)
qed (use assms in auto)

lemma decode4_encode:
  assumes "decode4 b0 bs = (r, w)" and "w \<noteq> 1" and "in_range 0xF0 0xF4 b0"
  shows "w = 4 \<and> 4 \<le> length (b0 # bs) \<and> encodeRune r = map char_of (take 4 (b0 # bs)) \<and> 0x10000 \<le> r"
proof (cases "(b0, bs)" rule: decode4.cases)
  case (1 b0' b1 b2 b3 bs')
  define x y z v where "x = b0 - 0xF0" and "y = b1 - 0x80" and "z = b2 - 0x80" and "v = b3 - 0x80"
  have r: "r = x * 262144 + y * 4096 + z * 64 + v" "w = 4" and v: "b3 = 0x80 + v" "v < 64"
    and z: "b2 = 0x80 + z" "z < 64" and y: "b1 = 0x80 + y" "y < 64"
    and x: "b0 = 0xF0 + x" "x < 5" and low: "x = 0 \<Longrightarrow> 16 \<le> y"
    using 1 assms by (auto simp: in_range_iff x_def y_def z_def v_def split: if_splits)
  have r': "r = ((x * 64 + y) * 64 + z) * 64 + v" using r(1) by simp
  have d: "r div 64 = (x * 64 + y) * 64 + z" "r mod 64 = v" unfolding r' using digits64 [OF v(2)] by blast+
  have dd: "r div 4096 = r div 64 div 64" "r div 262144 = r div 4096 div 64"
    by (simp_all add: div_mult2_eq [symmetric])
  have d': "r div 4096 = x * 64 + y" "r div 64 mod 64 = z" by (simp_all only: dd(1) d(1) digits64 [OF z(2)])
  have d'': "r div 262144 = x" "r div 4096 mod 64 = y" by (simp_all only: dd(2) d'(1) digits64 [OF y(2)])
  have "0x10000 \<le> r" using x low unfolding r(1) by (cases "x = 0"; simp)
  then show ?thesis using 1 r(2) x y z v d(2) d'(2) d'' by (simp add: encodeRune_def)
qed (use assms in auto)

lemma decodeRune_encode:
  assumes "decodeRune bs = (r, w)" and "(r, w) \<noteq> (RuneError, 1)" and "bs \<noteq> []"
  shows "w \<le> length bs \<and> encodeRune r = map char_of (take w bs) \<and> (128 \<le> hd bs \<longrightarrow> 128 \<le> r \<and> 1 < w)"
proof -
  obtain b0 bs' where bs: "bs = b0 # bs'" using assms(3) by (cases bs) auto
  have err: "w = 1 \<Longrightarrow> 128 \<le> b0 \<Longrightarrow> r = RuneError"
    using assms(1) unfolding bs
    by (auto simp: in_range_iff split: if_splits
        elim!: decode2.elims decode3.elims decode4.elims)
  consider "b0 < 128" | "128 \<le> b0" by linarith
  then show ?thesis
  proof cases
    case 1
    then show ?thesis using assms(1) by (auto simp: bs encodeRune_def)
  next
    case 2
    then have "w \<noteq> 1" using err assms(2) by auto
    then show ?thesis
      using 2 assms(1) decode2_encode [of b0 bs' r w] decode3_encode [of b0 bs' r w] decode4_encode [of b0 bs' r w]
      unfolding bs by (auto split: if_splits)
  qed
qed

text \<open>The bytes after a sequence do not matter.\<close>

lemma decode2_local: "decode2 b0 bs = (r, w) \<Longrightarrow> w \<noteq> 1 \<Longrightarrow> decode2 b0 (take (w - 1) bs @ cs) = (r, w)"
  by (cases "(b0, bs)" rule: decode2.cases) (auto split: if_splits)

lemma decode3_local: "decode3 b0 bs = (r, w) \<Longrightarrow> w \<noteq> 1 \<Longrightarrow> decode3 b0 (take (w - 1) bs @ cs) = (r, w)"
  by (cases "(b0, bs)" rule: decode3.cases) (auto simp: numeral_2_eq_2 split: if_splits)

lemma decode4_local: "decode4 b0 bs = (r, w) \<Longrightarrow> w \<noteq> 1 \<Longrightarrow> decode4 b0 (take (w - 1) bs @ cs) = (r, w)"
  by (cases "(b0, bs)" rule: decode4.cases) (auto simp: numeral_3_eq_3 split: if_splits)

lemma decodeRune_local:
  assumes "decodeRune (b # bs) = (r, w)" and "w \<noteq> 1"
  shows "decodeRune (take w (b # bs) @ cs) = (r, w)"
proof -
  have "0 < w" using decodeRune_width_pos [of "b # bs"] assms(1) by simp
  then have "take w (b # bs) @ cs = b # (take (w - 1) bs @ cs)" by (cases w) auto
  then show ?thesis using assms decode2_local [of b bs r w cs] decode3_local [of b bs r w cs]
      decode4_local [of b bs r w cs] by (auto split: if_splits)
qed

section \<open>Strings\<close>

lemma hex_value_char: "hex_value (hex_char n) = Some (n mod 16)"
proof -
  have "\<forall>m\<in>set [0..<16]. hex_value (''0123456789abcdef'' ! m) = Some m" by code_simp
  then show ?thesis unfolding hex_char_def by simp
qed

lemma nibbles: "n < 65536 \<Longrightarrow> n div 4096 mod 16 * 4096 + n div 256 mod 16 * 256 + n div 16 mod 16 * 16 + n mod 16 = (n::nat)"
proof -
  assume n: "n < 65536"
  have "n div 4096 mod 16 = n div 4096" using n by (simp add: less_mult_imp_div_less)
  moreover have "n = n div 16 * 16 + n mod 16" by (simp only: div_mult_mod_eq)
  moreover have "n div 16 = n div 256 * 16 + n div 16 mod 16"
    using div_mult_mod_eq [of "n div 16" 16] by (simp add: div_mult2_eq [symmetric])
  moreover have "n div 256 = n div 4096 * 16 + n div 256 mod 16"
    using div_mult_mod_eq [of "n div 256" 16] by (simp add: div_mult2_eq [symmetric])
  ultimately show ?thesis by linarith
qed

lemma getu4_escape: "n < 65536 \<Longrightarrow> getu4 (u_escape n @ u) = Some n"
  using nibbles [of n] by (simp add: getu4_def u_escape_def hex4_def hex_value_char)

lemma escape_chars: "backslash \<noteq> quote_char" "code backslash = 92" "code quote_char = 34"
  by (simp_all add: backslash_def quote_char_def)

lemma backslash_iff: "c = backslash \<longleftrightarrow> code c = 92" and quote_char_iff: "c = quote_char \<longleftrightarrow> code c = 34"
  using of_char_eq_iff [where ?'a = nat, of c] escape_chars(2,3) by metis+

text \<open>One step of the reader undoes one step of the writer.\<close>

lemma unquote_Cons_step: "s \<noteq> [] \<Longrightarrow> unquote s = fst (unquote_step s) @ unquote (drop (snd (unquote_step s)) s)"
  by (simp add: unquote.simps [of s])

lemma unquote_escape:
  assumes "r < 65536" and "\<not> in_range 0xD800 0xDFFF r"
  shows "unquote (u_escape r @ u) = encodeRune r @ unquote u"
proof -
  have step: "unquote_step (u_escape r @ u) = (encodeRune r, 6)"
    using assms getu4_escape [OF assms(1), of u] by (simp add: unquote_step_def unquote_u_def u_escape_def)
  have "u_escape r @ u \<noteq> []" "drop 6 (u_escape r @ u) = u" by (simp_all add: u_escape_def)
  then show ?thesis using unquote_Cons_step [of "u_escape r @ u"] by (simp add: step)
qed

lemma short_escape_back:
  assumes "short_escape (code c) = Some e"
  shows "unescape e = c \<and> e \<noteq> CHR ''u'' \<and> code e \<in> {98, 102, 110, 114, 116, 92, 47, 34}"
proof -
  have chr: "char_of n = c" if "code c = n" for n using that by auto
  show ?thesis using assms unfolding short_escape_def
    by (auto simp: unescape_def chr split: if_splits)
qed

lemma unquote_quote_step:
  assumes "s \<noteq> []" and "decodeRune (map of_char s) = (r, w)" and "(r, w) \<noteq> (RuneError, 1)"
  shows "unquote (fst (quote_step s) @ u) = take w s @ unquote u"
proof -
  obtain c s' where s: "s = c # s'" using assms(1) by (cases s) auto
  have chars: "map char_of (take w (map code s)) = take w s" by (simp add: take_map o_def)
  have enc: "w \<le> length s" "encodeRune r = take w s" "128 \<le> code c \<Longrightarrow> 128 \<le> r \<and> 1 < w"
    using decodeRune_encode [OF assms(2,3)] chars by (simp_all add: s del: decodeRune.simps)
  consider (ascii) "code c < 128" | (sep) "128 \<le> code c" "r = 0x2028 \<or> r = 0x2029"
    | (copy) "128 \<le> code c" "r \<noteq> 0x2028" "r \<noteq> 0x2029" by linarith
  then show ?thesis
  proof cases
    case ascii
    then have r: "r = code c" "w = 1" using assms(2) by (auto simp: s)
    show ?thesis
    proof (cases "html_safe (code c)")
      case True
      then have "unquote_step (c # u) = ([c], 1)"
        using ascii by (auto simp: unquote_step_def backslash_iff html_safe_def)
      then show ?thesis using True ascii r unquote_Cons_step [of "c # u"] by (simp add: quote_step_def s)
    next
      case unsafe: False
      show ?thesis
      proof (cases "short_escape (code c)")
        case None
        have "unquote (u_escape r @ u) = encodeRune r @ unquote u"
          using ascii r by (intro unquote_escape) (auto simp: in_range_iff)
        then show ?thesis using unsafe None ascii r enc(2) by (simp add: quote_step_def s)
      next
        case (Some e)
        then have "unquote_step (backslash # e # u) = ([c], 2)"
          using short_escape_back [OF Some] by (simp add: unquote_step_def)
        then show ?thesis
          using Some unsafe ascii r unquote_Cons_step [of "backslash # e # u"] by (simp add: quote_step_def s)
      qed
    qed
  next
    case sep
    then have "unquote (u_escape r @ u) = encodeRune r @ unquote u"
      by (intro unquote_escape) (auto simp: in_range_iff)
    then show ?thesis using sep assms(2,3) enc(2) by (auto simp: quote_step_def s RuneError_def simp del: decodeRune.simps)
  next
    case copy
    have "decodeRune (map of_char (take w s @ u)) = (r, w)"
      using decodeRune_local [of "code c" "map of_char s'" r w "map of_char u"] assms(2) enc(3) copy(1)
      by (simp add: s take_map [symmetric] del: decodeRune.simps)
    moreover have "hd (take w s @ u) = c" "take w s @ u \<noteq> []" using enc(3) copy(1) by (cases w; simp add: s)+
    ultimately have "unquote_step (take w s @ u) = (encodeRune r, w)"
      using copy by (simp add: unquote_step_def backslash_iff)
    then show ?thesis
      using copy assms(2,3) enc unquote_Cons_step [of "take w s @ u"] \<open>take w s @ u \<noteq> []\<close>
      by (simp add: quote_step_def s del: decodeRune.simps)
  qed
qed

lemma unquote_quote_body: "valid_utf8 s \<Longrightarrow> unquote (quote_body s) = s"
proof (induction s rule: quote_body.induct)
  case (1 s)
  show ?case
  proof (cases "s = []")
    case False
    obtain r w where d: "decodeRune (map of_char s) = (r, w)" by (cases "decodeRune (map of_char s)")
    have "(r, w) \<noteq> (RuneError, 1)" "valid_utf8 (drop w s)"
      using "1.prems" False d by (auto simp: valid_utf8.simps [of s])
    then show ?thesis
      using False "1.IH" d unquote_quote_step [OF False d] snd_quote_step [OF False]
      by (simp add: quote_body.simps [of s])
  qed (simp add: quote_body.simps unquote.simps)
qed

text \<open>The lexer reads a quoted string up to its closing quote, whatever the bytes.\<close>

abbreviation lexed :: "string \<Rightarrow> (string \<times> string) option \<Rightarrow> (string \<times> string) option" where
  "lexed xs r \<equiv> map_option (\<lambda>(a, b). (xs @ a, b)) r"

lemma lexed_lexed: "lexed xs (lexed ys r) = lexed (xs @ ys) r"
  by (cases r) auto

lemma lex_high: "\<forall>c\<in>set xs. 128 \<le> code c \<Longrightarrow> lex_string (xs @ u) = lexed xs (lex_string u)"
proof (induction xs)
  case Nil
  then show ?case by (cases "lex_string u") auto
next
  case (Cons c xs)
  then have "c \<noteq> quote_char" "c \<noteq> backslash" "\<not> code c < 32" by (auto simp: backslash_iff quote_char_iff)
  then show ?case using Cons by (cases "lex_string u") auto
qed

lemma lex_escape: "lex_string (u_escape n @ u) = lexed (u_escape n) (lex_string u)"
  by (simp add: u_escape_def hex_value_char escape_chars)

lemma lex_quote_step:
  assumes "s \<noteq> []"
  shows "lex_string (fst (quote_step s) @ u) = lexed (fst (quote_step s)) (lex_string u)"
proof -
  obtain c s' where s: "s = c # s'" using assms by (cases s) auto
  obtain r w where d: "decodeRune (map of_char s) = (r, w)" by (cases "decodeRune (map of_char s)")
  show ?thesis
  proof (cases "code c < 128")
    case True
    then show ?thesis
      using lex_escape [of "code c" u] short_escape_back [of c]
      by (auto simp: quote_step_def Let_def s html_safe_def backslash_iff quote_char_iff escape_chars split: option.splits)
  next
    case False
    have "\<forall>b\<in>set (take w (map of_char s)). 128 \<le> (b::nat)"
      using decodeRune_high_tail [of "code c" "map of_char s'"] d False
      by (cases w) (auto simp: s high_tail_def simp del: decodeRune.simps)
    then have "\<forall>b\<in>set (take w s). 128 \<le> code b" by (auto simp: take_map)
    then show ?thesis
      using False d lex_escape [of _ u] lex_high [of "take w s" u] by (auto simp: quote_step_def s simp del: decodeRune.simps)
  qed
qed

lemma lex_quote_body: "lex_string (quote_body s @ quote_char # u) = Some (quote_body s, u)"
proof (induction s rule: quote_body.induct)
  case (1 s)
  then show ?case
    using lex_quote_step [of s] by (cases "s = []") (simp_all add: quote_body.simps [of "[]"] quote_body.simps [of s])
qed

section \<open>The fuel of the parser\<close>

lemma skip_ws_length: "length (skip_ws s) \<le> length s"
  by (simp add: skip_ws_def length_dropWhile_le)

lemma skip_ws_Cons_length: "skip_ws s = c # r \<Longrightarrow> length r < length s"
  using skip_ws_length [of s] by simp

lemma lex_string_length: "lex_string s = Some (a, r) \<Longrightarrow> length r < length s"
  by (induction s arbitrary: a r rule: lex_string.induct)
    (auto split: if_splits list.splits simp: less_SucI)

lemma lex_digits_length: "lex_digits s = Some (a, r) \<Longrightarrow> length r < length s"
  by (cases s) (auto simp: lex_digits_def length_dropWhile_le less_Suc_eq_le split: if_splits)

lemma lex_integer_length: "lex_integer s = Some (a, r) \<Longrightarrow> length r < length s"
  by (auto simp: lex_integer_def dest: lex_digits_length split: list.splits if_splits)

lemma lex_fraction_length: "lex_fraction s = Some (a, r) \<Longrightarrow> length r \<le> length s"
  by (auto simp: lex_fraction_def dest: lex_digits_length split: list.splits if_splits)

lemma lex_exponent_length: "lex_exponent s = Some (a, r) \<Longrightarrow> length r \<le> length s"
  by (auto simp: lex_exponent_def dest: lex_digits_length split: list.splits if_splits)

lemma lex_number_length: "lex_number s = Some (a, r) \<Longrightarrow> length r < length s"
  by (auto simp: lex_number_def Let_def split: list.splits if_splits option.splits prod.splits
      dest!: lex_integer_length lex_fraction_length lex_exponent_length)

lemma parse_word_length: "parse_word w j s = Some (a, r) \<Longrightarrow> w \<noteq> [] \<Longrightarrow> s \<noteq> [] \<Longrightarrow> length r < length s"
  by (auto simp: parse_word_def split: if_splits)

lemma parse_scalar_length: "parse_scalar (c # s) = Some (j, r) \<Longrightarrow> length r < Suc (length s)"
  using parse_word_length [of _ _ "c # s" j r] lex_number_length [of "c # s" _ r]
  by (auto simp: parse_scalar_def split: if_splits dest: lex_string_length)

text \<open>Every parser leaves less than it was given.\<close>

lemma parse_length:
  shows "parse_value n d s = Some (j, r) \<Longrightarrow> length r < length s"
    and "parse_elements n d s = Some (js, r) \<Longrightarrow> length r < length s"
    and "parse_members n d s = Some (ms, r) \<Longrightarrow> length r < length s"
proof (induction n d s and n d s and n d s arbitrary: j r and js r and ms r
    rule: parse_value_parse_elements_parse_members.induct)
  case (2 n d s)
  show ?case
  proof (cases "skip_ws s")
    case (Cons c t)
    have "length r < Suc (length t)"
      using "2.prems" "2.IH"(1) [OF Cons] "2.IH"(2) [OF Cons]
      by (auto simp: Cons split: list.splits if_splits dest!: skip_ws_Cons_length dest: parse_scalar_length)
        (metis Suc_lessD less_Suc_eq less_trans_Suc)+
    then show ?thesis using skip_ws_Cons_length [OF Cons] by simp
  qed (use "2.prems" in simp)
next
  case (4 n d s)
  then show ?case
    by (fastforce split: list.splits if_splits option.splits dest!: skip_ws_Cons_length)
next
  case (6 n d s)
  then show ?case
    by (fastforce split: list.splits if_splits option.splits dest!: skip_ws_Cons_length lex_string_length)
qed simp_all

text \<open>More fuel than the length of the text asks for changes nothing.\<close>

lemma parse_fuel:
  shows "2 * length s + 1 \<le> n \<Longrightarrow> n \<le> m \<Longrightarrow> parse_value m d s = parse_value n d s"
    and "2 * length s + 2 \<le> n \<Longrightarrow> n \<le> m \<Longrightarrow> parse_elements m d s = parse_elements n d s"
    and "2 * length s + 2 \<le> n \<Longrightarrow> n \<le> m \<Longrightarrow> parse_members m d s = parse_members n d s"
proof (induction n d s and n d s and n d s arbitrary: m and m and m
    rule: parse_value_parse_elements_parse_members.induct)
  case (2 n d s)
  obtain m' where m: "m = Suc m'" "n \<le> m'" using "2.prems"(2) by (cases m) auto
  show ?case
  proof (cases "skip_ws s")
    case (Cons c t)
    have len: "length t < length s" using skip_ws_Cons_length [OF Cons] .
    have es: "parse_elements m' (d - 1) (b # t') = parse_elements n (d - 1) (b # t')"
      if "c = CHR ''[''" "d \<noteq> 0" "skip_ws t = b # t'" "b \<noteq> CHR '']''" for b t'
      using skip_ws_length [of t] that(3) len "2.prems"(1) m(2) by (intro "2.IH"(1) [OF Cons that]) auto
    have ms: "parse_members m' (d - 1) (b # t') = parse_members n (d - 1) (b # t')"
      if "c \<noteq> CHR ''[''" "c = CHR ''{''" "d \<noteq> 0" "skip_ws t = b # t'" "b \<noteq> CHR ''}''" for b t'
      using skip_ws_length [of t] that(4) len "2.prems"(1) m(2) by (intro "2.IH"(2) [OF Cons that]) auto
    show ?thesis by (auto simp: m(1) Cons es [unfolded One_nat_def] ms [unfolded One_nat_def] split: list.split)
  qed (simp add: m(1))
next
  case (4 n d s)
  obtain m' where m: "m = Suc m'" "n \<le> m'" using "4.prems"(2) by (cases m) auto
  have v: "parse_value m' d s = parse_value n d s" using "4.prems"(1) m(2) by (intro "4.IH"(1)) auto
  have "parse_elements m' d r' = parse_elements n d r'"
    if "parse_value n d s = Some (j, r)" "skip_ws r = c # r'" "c = CHR '',''" for j r c r'
    using parse_length(1) [OF that(1)] skip_ws_Cons_length [OF that(2)] "4.prems"(1) m(2)
    by (intro "4.IH"(2) [OF that(1) refl that(2,3)]) auto
  then show ?case by (auto simp: m(1) v split: option.split list.split)
next
  case (6 n d s)
  obtain m' where m: "m = Suc m'" "n \<le> m'" using "6.prems"(2) by (cases m) auto
  show ?case
  proof (cases "skip_ws s")
    case (Cons q r0)
    have len0: "length r0 < length s" using skip_ws_Cons_length [OF Cons] .
    have v: "parse_value m' d r2 = parse_value n d r2"
      if "q = quote_char" "lex_string r0 = Some (k, r1)" "skip_ws r1 = b # r2" "b = CHR '':''" for k r1 b r2
      using that lex_string_length [OF that(2)] skip_ws_Cons_length [OF that(3)] len0 "6.prems"(1) m(2)
      by (intro "6.IH"(1) [OF Cons _ that(2) refl that(3)]) auto
    have "parse_members m' d r' = parse_members n d r'"
      if "q = quote_char" "lex_string r0 = Some (k, r1)" "skip_ws r1 = b # r2" "b = CHR '':''"
        "parse_value n d r2 = Some (j, r)" "skip_ws r = c # r'" "c = CHR '',''" for k r1 b r2 j r c r'
      using that parse_length(1) [OF that(5)] lex_string_length [OF that(2)] skip_ws_Cons_length [OF that(3)]
        skip_ws_Cons_length [OF that(6)] len0 "6.prems"(1) m(2)
      by (intro "6.IH"(2) [OF Cons _ that(2) refl that(3) _ that(5) refl that(6,7)]) auto
    then show ?thesis by (auto simp: m(1) Cons v split: option.split list.split)
  qed (simp add: m(1))
qed auto

section \<open>Integers\<close>

lemma show_nat_less10: "n < 10 \<Longrightarrow> show_nat n = [char_of (48 + n)]"
  by (simp add: show_nat.simps [of n])

lemma show_nat_ge10: "10 \<le> n \<Longrightarrow> show_nat n = show_nat (n div 10) @ [char_of (48 + n mod 10)]"
  by (simp add: show_nat.simps [of n])

lemma digit_char: "m < 10 \<Longrightarrow> is_digit (char_of (48 + m)) \<and> code (char_of (48 + m)) - 48 = m"
  by (simp add: is_digit_def in_range_iff)

lemma show_nat_digits: "show_nat n \<noteq> [] \<and> list_all is_digit (show_nat n)"
proof (induction n rule: show_nat.induct)
  case (1 n)
  then show ?case
    using digit_char [of n] digit_char [of "n mod 10"]
    by (cases "n < 10") (simp_all add: show_nat_less10 show_nat_ge10)
qed

lemma digits_value_snoc: "digits_value (s @ [c]) = 10 * digits_value s + (code c - 48)"
  by (simp add: digits_value_def)

lemma digits_value_show_nat: "digits_value (show_nat n) = n"
proof (induction n rule: show_nat.induct)
  case (1 n)
  then show ?case
    using digit_char [of n] digit_char [of "n mod 10"]
    by (cases "n < 10") (simp_all add: show_nat_less10 show_nat_ge10 digits_value_snoc, simp add: digits_value_def)
qed

lemma parse_nat_show: "parse_nat (show_nat n) = Some n"
  using show_nat_digits [of n] by (simp add: parse_nat_def digits_value_show_nat)

lemma show_nat_hd:
  shows "show_nat n = c # r \<Longrightarrow> is_digit c" and "show_nat n = c # r \<Longrightarrow> c = CHR ''0'' \<Longrightarrow> n = 0"
proof -
  show "show_nat n = c # r \<Longrightarrow> is_digit c" using show_nat_digits [of n] by simp
  show "show_nat n = c # r \<Longrightarrow> c = CHR ''0'' \<Longrightarrow> n = 0"
  proof (induction n arbitrary: r rule: show_nat.induct)
    case (1 n)
    show ?case
    proof (cases "n < 10")
      case True
      then have "c = char_of (48 + n)" using "1.prems"(1) by (simp add: show_nat_less10)
      then have "code c = 48 + n" using True by simp
      then show ?thesis using "1.prems"(2) by simp
    next
      case False
      then obtain r' where "show_nat (n div 10) = c # r'"
        using "1.prems"(1) show_nat_digits [of "n div 10"]
          show_nat_ge10 [of n] False by (cases "show_nat (n div 10)") simp_all
      then show ?thesis using "1.IH" [OF False _ "1.prems"(2)] False by simp
    qed
  qed
qed

lemma show_nat_no_sign:
  obtains c r where "show_nat n = c # r" and "c \<noteq> CHR ''-''"
proof (cases "show_nat n")
  case (Cons c r)
  moreover have "\<not> is_digit (CHR ''-'')" by code_simp
  ultimately show ?thesis using that [OF Cons] show_nat_digits [of n] by auto
qed (use show_nat_digits [of n] in simp)

lemma zero_char: "char_of (48::nat) = CHR ''0''"
  by code_simp

text \<open>What may follow a value inside a larger one.\<close>

definition delimited :: "string \<Rightarrow> bool" where
  "delimited u \<longleftrightarrow> u = [] \<or> hd u = CHR '','' \<or> hd u = CHR '']'' \<or> hd u = CHR ''}''"

lemma delimited_Cons [simp]:
  "delimited (CHR '','' # u)" "delimited (CHR '']'' # u)" "delimited (CHR ''}'' # u)" "delimited []"
  by (simp_all add: delimited_def)

lemma delimited_not_digit: "delimited u \<Longrightarrow> takeWhile is_digit u = [] \<and> dropWhile is_digit u = u"
  by (cases u) (auto simp: delimited_def is_digit_def in_range_iff)

lemma lex_digits_show: "delimited u \<Longrightarrow> lex_digits (show_nat n @ u) = Some (show_nat n, u)"
  using show_nat_digits [of n] delimited_not_digit [of u]
  by (simp add: lex_digits_def takeWhile_append dropWhile_append list_all_iff)

lemma lex_integer_show: "delimited u \<Longrightarrow> lex_integer (show_nat n @ u) = Some (show_nat n, u)"
proof -
  assume u: "delimited u"
  obtain c r where cr: "show_nat n = c # r" using show_nat_digits [of n] by (cases "show_nat n") auto
  show ?thesis
  proof (cases "c = CHR ''0''")
    case True
    then have "show_nat n = ''0''" using show_nat_hd(2) [OF cr] by (simp add: show_nat_less10 zero_char)
    then show ?thesis by (simp add: lex_integer_def)
  next
    case False
    then show ?thesis using lex_digits_show [OF u, of n] by (simp add: lex_integer_def cr)
  qed
qed

lemma lex_number_show: "delimited u \<Longrightarrow> lex_number (show_int i @ u) = Some (show_int i, u)"
proof -
  assume u: "delimited u"
  have tails: "lex_fraction u = Some ([], u)" "lex_exponent u = Some ([], u)"
    using u by (cases u; auto simp: lex_fraction_def lex_exponent_def delimited_def)+
  show ?thesis
  proof (cases "i < 0")
    case True
    then show ?thesis using lex_integer_show [OF u] tails by (simp add: lex_number_def show_int_def)
  next
    case False
    obtain c r where "show_nat (nat i) = c # r" "c \<noteq> CHR ''-''" by (rule show_nat_no_sign)
    then show ?thesis
      using False lex_integer_show [OF u, of "nat i"] tails by (simp add: lex_number_def show_int_def)
  qed
qed

lemma parse_int_show: "parse_int (show_int i) = Some i"
proof (cases "i < 0")
  case True
  then show ?thesis by (simp add: parse_int_def show_int_def parse_nat_show)
next
  case False
  obtain c r where "show_nat (nat i) = c # r" "c \<noteq> CHR ''-''" by (rule show_nat_no_sign)
  then show ?thesis using False parse_nat_show [of "nat i"] by (simp add: parse_int_def show_int_def)
qed

section \<open>Values\<close>

text \<open>
  The values a printed text gives back: strings are valid UTF-8, numbers are integers written in the
  canonical way, and brackets nest at most \<open>d\<close> deep.
\<close>

fun fits :: "nat \<Rightarrow> json \<Rightarrow> bool" where
  "fits d JNull = True"
| "fits d (JBool b) = True"
| "fits d (JNumber l) = (map_option show_int (parse_int l) = Some l)"
| "fits d (JString s) = valid_utf8 s"
| "fits d (JArray js) = (0 < d \<and> (\<forall>j\<in>set js. fits (d - 1) j))"
| "fits d (JObject ms) = (0 < d \<and> (\<forall>m\<in>set ms. valid_utf8 (fst m) \<and> fits (d - 1) (snd m)))"

text \<open>The fuel a value takes, and that its text pays for it.\<close>

fun fuel_value :: "json \<Rightarrow> nat"
  and fuel_elements :: "json list \<Rightarrow> nat"
  and fuel_members :: "(string \<times> json) list \<Rightarrow> nat"
  where
  "fuel_value (JArray js) = 1 + fuel_elements js"
| "fuel_value (JObject ms) = 1 + fuel_members ms"
| "fuel_value _ = 1"
| "fuel_elements [] = 0"
| "fuel_elements (j # js) = 1 + fuel_value j + fuel_elements js"
| "fuel_members [] = 0"
| "fuel_members ((k, j) # ms) = 1 + fuel_value j + fuel_members ms"

lemma number_text:
  assumes "fits d (JNumber l)"
  obtains i where "l = show_int i"
  using assms by auto

lemma number_text_nonempty: "fits d (JNumber l) \<Longrightarrow> l \<noteq> []"
  by (auto simp: parse_int_def split: list.splits)

lemma fuel_text:
  shows "fits d j \<Longrightarrow> fuel_value j \<le> 2 * length (print_json j)"
    and "\<forall>j\<in>set js. fits d j \<Longrightarrow> fuel_elements js \<le> 2 * length (print_elements js) + 1"
    and "\<forall>m\<in>set ms. fits d (snd m) \<Longrightarrow> fuel_members ms \<le> 2 * length (print_members ms) + 1"
proof (induction j and js and ms arbitrary: d and d and d
    rule: print_json_print_elements_print_members.induct)
  case (3 l)
  then show ?case using number_text_nonempty [of d l] by (cases l) auto
next
  case (5 js)
  then show ?case using "5.IH" [of "d - 1"] by simp
next
  case (6 ms)
  then show ?case using "6.IH" [of "d - 1"] by simp
next
  case (8 j)
  then show ?case using "8.IH" [of d] by simp
next
  case (9 j k js)
  then show ?case using "9.IH"(1) [of d] "9.IH"(2) [of d] by simp
next
  case (11 k j)
  then have "fuel_value j \<le> 2 * length (print_json j)" by simp
  then show ?case by simp
next
  case (12 k j m ms)
  then show ?case using "12.IH"(1) [of d] "12.IH"(2) [of d] by simp
qed (simp_all add: quote_string_def)

text \<open>The first character of a text, and what the parser does at it.\<close>

lemma number_starts:
  assumes "fits d (JNumber l)"
  obtains c r where "l = c # r" "c = CHR ''-'' \<or> is_digit c"
proof -
  obtain i where i: "l = show_int i" using assms by (rule number_text)
  show ?thesis
  proof (cases "i < 0")
    case True
    then show ?thesis using that i by (simp add: show_int_def)
  next
    case False
    obtain c r where "show_nat (nat i) = c # r" by (rule show_nat_no_sign)
    then show ?thesis using that i False show_nat_hd(1) by (simp add: show_int_def)
  qed
qed

definition starts_scalar :: "char \<Rightarrow> bool" where
  "starts_scalar c \<longleftrightarrow> c = quote_char \<or> c = CHR ''t'' \<or> c = CHR ''f'' \<or> c = CHR ''n'' \<or> c = CHR ''-'' \<or> is_digit c"

lemma starts_scalar_class:
  assumes "starts_scalar c"
  shows "\<not> is_space c \<and> c \<noteq> CHR ''['' \<and> c \<noteq> CHR ''{'' \<and> c \<noteq> CHR '']'' \<and> c \<noteq> CHR ''}''"
proof -
  have "code c \<in> {34, 116, 102, 110, 45} \<or> 48 \<le> code c \<and> code c \<le> 57"
    using assms by (auto simp: starts_scalar_def is_digit_def in_range_iff escape_chars)
  then show ?thesis by (auto simp: is_space_def)
qed

text \<open>A scalar is parsed back at its first character.\<close>

lemma parse_scalar_print:
  assumes "fits d j" and "delimited u" and "\<not> (\<exists>js. j = JArray js)" and "\<not> (\<exists>ms. j = JObject ms)"
  obtains c r where "print_json j @ u = c # r" "starts_scalar c" "parse_scalar (c # r) = Some (j, u)"
proof (cases j)
  case (JBool b)
  have "HasPrefix (w @ u) w" for w by (simp add: HasPrefix_iff)
  from this [of "''true''"] this [of "''false''"] show ?thesis
    using that JBool by (cases b) (auto simp: parse_scalar_def parse_word_def starts_scalar_def quote_char_def)
next
  case JNull
  have "HasPrefix (''null'' @ u) ''null''" by (simp add: HasPrefix_iff)
  then show ?thesis using that JNull by (auto simp: parse_scalar_def parse_word_def starts_scalar_def quote_char_def)
next
  case (JString s)
  then show ?thesis
    using that [of quote_char "quote_body s @ quote_char # u"] assms(1) lex_quote_body [of s u] unquote_quote_body [of s]
    by (simp add: quote_string_def parse_scalar_def starts_scalar_def)
next
  case (JNumber l)
  obtain c r where cr: "l = c # r" "c = CHR ''-'' \<or> is_digit c"
    using assms(1) unfolding JNumber by (rule number_starts)
  obtain i where i: "l = show_int i" using assms(1) unfolding JNumber by (rule number_text)
  have "c \<noteq> quote_char \<and> c \<noteq> CHR ''t'' \<and> c \<noteq> CHR ''f'' \<and> c \<noteq> CHR ''n''"
    using cr(2) by (auto simp: is_digit_def in_range_iff quote_char_iff)
  moreover have "lex_number (c # r @ u) = Some (c # r, u)"
    using lex_number_show [OF assms(2), of i, folded i, unfolded cr(1)] by simp
  ultimately show ?thesis
    using that [of c "r @ u"] cr JNumber by (simp add: parse_scalar_def starts_scalar_def)
qed (use assms in auto)

lemma parse_value_scalar:
  assumes "fits d j" and "delimited u" and "\<not> (\<exists>js. j = JArray js)" and "\<not> (\<exists>ms. j = JObject ms)" and "0 < n"
  shows "parse_value n d (print_json j @ u) = Some (j, u)"
proof -
  obtain c r where cr: "print_json j @ u = c # r" "starts_scalar c" "parse_scalar (c # r) = Some (j, u)"
    using assms(1-4) by (rule parse_scalar_print)
  obtain n' where "n = Suc n'" using assms(5) by (cases n) auto
  moreover have "skip_ws (c # r) = c # r" using starts_scalar_class [OF cr(2)] by (simp add: skip_ws_def)
  ultimately show ?thesis using cr(1,3) starts_scalar_class [OF cr(2)] by simp
qed

lemma skip_ws_Cons [simp]: "\<not> is_space c \<Longrightarrow> skip_ws (c # r) = c # r"
  by (simp add: skip_ws_def)

lemma marks_no_space [simp]:
  "\<not> is_space (CHR '','')" "\<not> is_space (CHR ''['')" "\<not> is_space (CHR '']'')" "\<not> is_space (CHR ''{'')"
  "\<not> is_space (CHR ''}'')" "\<not> is_space (CHR '':'')" "\<not> is_space quote_char"
  by (simp_all add: is_space_def escape_chars)

text \<open>No value starts with a closing bracket or a space.\<close>

lemma print_starts:
  assumes "fits d j"
  obtains c r where "print_json j @ u = c # r" "\<not> is_space c" "c \<noteq> CHR '']''"
proof (cases "(\<exists>js. j = JArray js) \<or> (\<exists>ms. j = JObject ms)")
  case True
  then show ?thesis using that by auto
next
  case False
  obtain c r where cr: "print_json j @ [] = c # r" "starts_scalar c"
    using parse_scalar_print [OF assms delimited_Cons(4)] False by metis
  show ?thesis using that [of c "r @ u"] cr starts_scalar_class [OF cr(2)] by simp
qed

lemma print_elements_starts:
  assumes "js \<noteq> []" and "\<forall>j\<in>set js. fits d j"
  obtains c r where "print_elements js @ u = c # r" "\<not> is_space c" "c \<noteq> CHR '']''"
proof -
  obtain j ks where js: "js = j # ks" using assms(1) by (cases js) auto
  define v where "v = (if ks = [] then [] else '','' @ print_elements ks) @ u"
  have "print_elements js @ u = print_json j @ v" unfolding js v_def by (cases ks) auto
  then show ?thesis using print_starts [of d j v] assms(2) that js by auto
qed

lemma print_members_starts: "ms \<noteq> [] \<Longrightarrow> \<exists>r. print_members ms @ u = quote_char # r"
  by (cases ms rule: print_members.cases) (auto simp: quote_string_def)

text \<open>The round trip.\<close>

lemma parse_print:
  shows "fits d j \<Longrightarrow> fuel_value j \<le> n \<Longrightarrow> delimited u \<Longrightarrow> parse_value n d (print_json j @ u) = Some (j, u)"
    and "\<forall>j\<in>set js. fits d j \<Longrightarrow> js \<noteq> [] \<Longrightarrow> fuel_elements js \<le> n \<Longrightarrow>
      parse_elements n d (print_elements js @ CHR '']'' # u) = Some (js, u)"
    and "\<forall>m\<in>set ms. valid_utf8 (fst m) \<and> fits d (snd m) \<Longrightarrow> ms \<noteq> [] \<Longrightarrow> fuel_members ms \<le> n \<Longrightarrow>
      parse_members n d (print_members ms @ CHR ''}'' # u) = Some (ms, u)"
proof (induction j and js and ms arbitrary: n d u and n d u and n d u
    rule: print_json_print_elements_print_members.induct)
  case (5 js)
  obtain n' where n: "n = Suc n'" using "5.prems"(2) by (cases n) auto
  show ?case
  proof (cases "js = []")
    case False
    obtain c r where cr: "print_elements js @ CHR '']'' # u = c # r" "\<not> is_space c" "c \<noteq> CHR '']''"
      by (rule print_elements_starts [OF False, of "d - 1"]) (use "5.prems"(1) in auto)
    have "parse_elements n' (d - 1) (c # r) = Some (js, u)"
      using "5.IH" [of "d - 1" n' u] "5.prems" n False unfolding cr(1) by simp
    then show ?thesis using n cr "5.prems"(1) by simp
  qed (use n "5.prems" in simp)
next
  case (6 ms)
  obtain n' where n: "n = Suc n'" using "6.prems"(2) by (cases n) auto
  show ?case
  proof (cases "ms = []")
    case False
    obtain r where r: "print_members ms @ CHR ''}'' # u = quote_char # r"
      using print_members_starts [OF False] by blast
    have "parse_members n' (d - 1) (quote_char # r) = Some (ms, u)"
      using "6.IH" [of "d - 1" n' u] "6.prems" n False unfolding r by simp
    moreover have "quote_char \<noteq> CHR ''}''" by (simp add: quote_char_def)
    ultimately show ?thesis using n r "6.prems"(1) by simp
  qed (use n "6.prems" in simp)
next
  case (8 j)
  then show ?case by (cases n) auto
next
  case (9 j k js)
  then show ?case by (cases n) auto
next
  case (11 k j)
  then show ?case by (cases n) (auto simp: quote_string_def lex_quote_body unquote_quote_body)
next
  case (12 k j m ms)
  then show ?case by (cases n) (auto simp: quote_string_def lex_quote_body unquote_quote_body)
next
  case (7 n d u)
  then show ?case by simp
next
  case (10 n d u)
  then show ?case by simp
qed (rule parse_value_scalar; simp)+

lemma json_text_round_trip:
  assumes "fits maxNestingDepth j"
  shows "parse_json (print_json j) = Some j"
proof -
  have "parse_value (2 * length (print_json j) + 2) maxNestingDepth (print_json j @ []) = Some (j, [])"
    using assms fuel_text(1) [OF assms] by (intro parse_print(1)) auto
  then show ?thesis by (simp add: parse_json_def skip_ws_def)
qed

text \<open>The fuel \<open>parse_json\<close> starts with is enough: any larger amount gives the same answer.\<close>

lemma parse_fuel_enough:
  "2 * length s + 2 \<le> n \<Longrightarrow> parse_value n d s = parse_value (2 * length s + 2) d s"
  by (rule parse_fuel(1)) auto

section \<open>Messages\<close>

text \<open>
  The contract of a message type that is written as JSON and read by a decoder: the value written
  fits the codec, and the decoder reads it as what the receiver is meant to get.
\<close>

locale json_message =
  fixes to_json :: "'a \<Rightarrow> json"
    and dec :: "'a decoder"
    and zero :: 'a
    and valid :: "'a \<Rightarrow> bool"
    and received :: "'a \<Rightarrow> 'a"
  assumes fits_message: "valid x \<Longrightarrow> fits maxNestingDepth (to_json x)"
    and reads_message: "dec (to_json x) zero = (True, received x)"
begin

lemma read_back: "valid x \<Longrightarrow> json_Unmarshal dec (print_json (to_json x)) zero = (None, received x)"
  by (simp add: json_Unmarshal_def json_text_round_trip [OF fits_message] reads_message)

lemma text_determines: "valid x \<Longrightarrow> valid y \<Longrightarrow> print_json (to_json x) = print_json (to_json y) \<Longrightarrow> received x = received y"
  using read_back [of x] read_back [of y] by simp

end

end
