(* ===== verification/Runtime.thy ===== *)
theory Runtime
  imports Worker_Base Json_Roundtrip
begin

text \<open>
  The session runtime of \<open>egress/runtime.go\<close> with the messages it builds (\<open>egress/types.go\<close>):
  registration and its retry loop, heartbeats, the snapshot handler, and \<open>Run\<close>. Each loop takes the
  list of what it meets (replies, ticks, the end of its context) and returns its result with the
  actions it took, so every schedule is some list. The assignment server behind the interfaces
  \<open>AssignmentServer\<close> and \<open>runtimeController\<close> is a record of operations, its laws the locale
  \<open>runtime_controller\<close>, interpreted on \<open>Worker\<close>.
\<close>

section \<open>Messages\<close>

record Capabilities =
  cp_AllowedPools :: "PoolRef list"
  cp_Tags :: "string list"
  cp_Countries :: "string list"
  cp_Regions :: "string list"
  cp_IPTypes :: "string list"
  cp_SupportedIngressModes :: "string list"
  cp_SupportedFingerprintProfiles :: "string list"
  cp_MaxConcurrency :: u32
  cp_SoftwareVersion :: string
  cp_InitialDraining :: bool

definition ProtocolMinor :: u32 where
  "ProtocolMinor = 1"

text \<open>
  What the runtime is linked with: the protobuf codec, \<open>strawpb.SignRegistration\<close>; and what it
  reads from its surroundings at a call: random bytes of a length (\<open>None\<close> when the generator fails) and the
  clock.
\<close>

record runtime_env =
  re_marshal :: marshaller
  re_unmarshal :: unmarshaller
  re_sign :: "bytes \<Rightarrow> RegisterRequest \<Rightarrow> bytes"

definition registrationNonceBytes :: nat where
  "registrationNonceBytes = 16"

definition BuildRegisterRequest ::
  "(bytes \<Rightarrow> RegisterRequest \<Rightarrow> bytes) \<Rightarrow> (nat \<Rightarrow> bytes option) \<Rightarrow> i64 \<Rightarrow> Identity \<Rightarrow> Capabilities \<Rightarrow> RegisterRequest option" where
  "BuildRegisterRequest sign random now identity caps =
     (case random registrationNonceBytes of
        None \<Rightarrow> None
      | Some nonce \<Rightarrow>
          (let pools = map (\<lambda>p. \<lparr>pr_deployment_id = pr_deployment_id p, pr_pool_id = pr_pool_id p\<rparr>) (cp_AllowedPools caps);
               req = \<lparr>rr_worker_id = id_WorkerID identity, rr_executor_type = id_ExecutorType identity,
                      rr_credential_id = id_CredentialID identity, rr_protocol_major = ProtocolMajor,
                      rr_protocol_minor = ProtocolMinor, rr_software_version = cp_SoftwareVersion caps,
                      rr_allowed_pools = pools, rr_tags = cp_Tags caps, rr_countries = cp_Countries caps,
                      rr_regions = cp_Regions caps, rr_ip_types = cp_IPTypes caps,
                      rr_supported_ingress_modes = cp_SupportedIngressModes caps,
                      rr_supported_fingerprint_profiles = cp_SupportedFingerprintProfiles caps,
                      rr_max_concurrency = cp_MaxConcurrency caps, rr_initial_draining = cp_InitialDraining caps,
                      rr_nonce = nonce, rr_issued_at_unix_ms = now, rr_signed_token = []\<rparr>
           in Some (req\<lparr>rr_signed_token := sign (id_PrivateKey identity) req\<rparr>)))"

definition BuildHeartbeat ::
  "Identity \<Rightarrow> string \<Rightarrow> WorkerHealth \<Rightarrow> u32 \<Rightarrow> u32 \<Rightarrow> u32 \<Rightarrow> bool \<Rightarrow> i64 \<Rightarrow> HeartbeatRequest" where
  "BuildHeartbeat identity sessionID health activeRequests availableCapacity maxConcurrency draining now =
     \<lparr>hb_worker_id = id_WorkerID identity, hb_session_id = sessionID, hb_health = health,
      hb_active_requests = activeRequests, hb_available_capacity = availableCapacity,
      hb_max_concurrency = maxConcurrency, hb_draining = draining, hb_worker_timestamp_ms = now\<rparr>"

definition InboxPrefix :: "unicode_tables \<Rightarrow> Identity \<Rightarrow> subject_error + string" where
  "InboxPrefix uni identity = WorkerInboxPrefix uni (id_WorkerID identity)"

section \<open>Requests\<close>

text \<open>A connection answers a request on a subject, or fails; nil is \<open>None\<close>.\<close>

type_synonym nats_conn = "string \<Rightarrow> bytes \<Rightarrow> bytes option"

datatype request_error = ContextError | RequestConnRequired | RequestFailed string

definition request ::
  "bool \<Rightarrow> nats_conn option \<Rightarrow> string \<Rightarrow> bytes \<Rightarrow> request_error + bytes" where
  "request ctxDone conn subject raw =
     (if ctxDone then Inl ContextError
      else (case conn of
              None \<Rightarrow> Inl RequestConnRequired
            | Some c \<Rightarrow> (case c subject raw of None \<Rightarrow> Inl (RequestFailed subject) | Some data \<Rightarrow> Inr data)))"

datatype call_error =
    BuildFailed
  | CodecFailed codec_error
  | RequestError request_error
  | errRegisterAckMissing
  | errRegistrationRejected
  | errRegistrationNoSession
  | errHeartbeatAckMissing
  | errHeartbeatRejected

text \<open>
  An envelope there and an envelope back, as \<open>Register\<close> and \<open>Heartbeat\<close> both exchange them; and
  whether the connection is asked at all.
\<close>

definition sessionEnvelope :: "EnvelopePayload \<Rightarrow> Envelope" where
  "sessionEnvelope payload =
     empty_envelope\<lparr>protocol_major := ProtocolMajor, protocol_minor := 0, env_payload := Some payload\<rparr>"

definition exchange ::
  "runtime_env \<Rightarrow> bool \<Rightarrow> nats_conn option \<Rightarrow> string \<Rightarrow> EnvelopePayload \<Rightarrow> call_error + Envelope" where
  "exchange E ctxDone conn subject payload =
     (case MarshalEnvelope (re_marshal E) (Some (sessionEnvelope payload)) of
        Inl err \<Rightarrow> Inl (CodecFailed err)
      | Inr raw \<Rightarrow>
          (case request ctxDone conn subject raw of
             Inl err \<Rightarrow> Inl (RequestError err)
           | Inr data \<Rightarrow>
               (case UnmarshalEnvelope (re_unmarshal E) data of
                  Inl err \<Rightarrow> Inl (CodecFailed err) | Inr env \<Rightarrow> Inr env)))"

definition asks :: "runtime_env \<Rightarrow> bool \<Rightarrow> nats_conn option \<Rightarrow> EnvelopePayload \<Rightarrow> bool" where
  "asks E ctxDone conn payload \<longleftrightarrow>
     (case MarshalEnvelope (re_marshal E) (Some (sessionEnvelope payload)) of
        Inl _ \<Rightarrow> False | Inr raw \<Rightarrow> \<not> ctxDone \<and> conn \<noteq> None)"

definition Register ::
  "runtime_env \<Rightarrow> (nat \<Rightarrow> bytes option) \<Rightarrow> i64 \<Rightarrow> bool \<Rightarrow> nats_conn option \<Rightarrow> Identity \<Rightarrow> Capabilities \<Rightarrow> call_error + string" where
  "Register E random now ctxDone conn identity caps =
     (case BuildRegisterRequest (re_sign E) random now identity caps of
        None \<Rightarrow> Inl BuildFailed
      | Some req \<Rightarrow>
          (case exchange E ctxDone conn RegistrationSubject (Envelope_RegisterRequest req) of
             Inl err \<Rightarrow> Inl err
           | Inr resp \<Rightarrow>
               (case GetRegisterAck resp of
                  None \<Rightarrow> Inl errRegisterAckMissing
                | Some ack \<Rightarrow>
                    (if \<not> ra_ok ack then Inl errRegistrationRejected
                     else if ra_session_id ack = [] then Inl errRegistrationNoSession
                     else Inr (ra_session_id ack)))))"

text \<open>The error of a heartbeat, \<open>None\<close> when there is none.\<close>

definition Heartbeat ::
  "runtime_env \<Rightarrow> bool \<Rightarrow> nats_conn option \<Rightarrow> HeartbeatRequest \<Rightarrow> call_error option" where
  "Heartbeat E ctxDone conn hb =
     (case exchange E ctxDone conn HeartbeatSubject (Envelope_HeartbeatRequest hb) of
        Inl err \<Rightarrow> Some err
      | Inr resp \<Rightarrow>
          (case GetHeartbeatAck resp of
             None \<Rightarrow> Some errHeartbeatAckMissing
           | Some ok \<Rightarrow> (if \<not> ok then Some errHeartbeatRejected else None)))"

section \<open>The retry loop\<close>

definition registerBackoffFloor :: int where
  "registerBackoffFloor = 1000000000"

definition registerBackoffMax :: int where
  "registerBackoffMax = 30000000000"

definition registerBackoffFactor :: int where
  "registerBackoffFactor = 2"

text \<open>
  One round: the result of \<open>Register\<close>, whether the context is done after it, and whether the wait
  that follows is cut short by the context.
\<close>

record retry_round =
  rd_result :: "call_error + string"
  rd_ctxErr :: bool
  rd_cut :: bool

datatype retry_result = StillRegistering | RegisterCancelled | Registered string

text \<open>The result of the loop and the times it has waited.\<close>

fun registerWithRetry :: "int \<Rightarrow> int \<Rightarrow> retry_round list \<Rightarrow> retry_result \<times> int list" where
  "registerWithRetry backoff backoffMax [] = (StillRegistering, [])"
| "registerWithRetry backoff backoffMax (r # rs) =
     (case rd_result r of
        Inr sessionID \<Rightarrow> (Registered sessionID, [])
      | Inl _ \<Rightarrow>
          (if rd_ctxErr r then (RegisterCancelled, [])
           else if rd_cut r then (RegisterCancelled, [backoff])
           else (case registerWithRetry (min (backoff * registerBackoffFactor) backoffMax) backoffMax rs of
                   (res, waits) \<Rightarrow> (res, backoff # waits))))"

section \<open>The assignment server\<close>

text \<open>
  \<open>AssignmentServer\<close>, and \<open>runtimeController\<close> when the type assertion succeeds; \<open>Serve\<close> runs in its
  own goroutine.
\<close>

record 'w assignment_server =
  srv_ActiveRequests :: "'w \<Rightarrow> u32"
  srv_controller :: "((bool \<Rightarrow> 'w \<Rightarrow> 'w) \<times> ('w \<Rightarrow> bool)) option"

locale runtime_controller =
  fixes active :: "'w \<Rightarrow> u32"
    and set_draining :: "bool \<Rightarrow> 'w \<Rightarrow> 'w"
    and draining :: "'w \<Rightarrow> bool"
  assumes draining_set: "draining (set_draining d w) = d"
    and active_set: "active (set_draining d w) = active w"
    and set_set: "set_draining d (set_draining d' w) = set_draining d w"

definition worker_server :: "Worker assignment_server" where
  "worker_server = \<lparr>srv_ActiveRequests = ActiveRequests, srv_controller = Some (SetDraining, Draining)\<rparr>"

interpretation worker_controller: runtime_controller ActiveRequests SetDraining Draining
  by unfold_locales (simp_all add: ActiveRequests_def SetDraining_def Draining_def)

section \<open>Snapshots\<close>

record worker_setting =
  wset_WorkerID :: string
  wset_Enabled :: bool
  wset_Draining :: bool

record runtimeSnapshot =
  rs_ConfigVersion :: u64
  rs_WorkerSettings :: "worker_setting list"

text \<open>The snapshot is JSON; a message that is no JSON, or in which some field has the wrong type, is dropped.\<close>

definition bytes_text :: "bytes \<Rightarrow> string" where
  "bytes_text bs = map (\<lambda>b. char_of (unat b)) bs"

definition dec_worker_setting :: "worker_setting decoder" where
  "dec_worker_setting = dec_struct
     [(''worker_id'', dec_field dec_string wset_WorkerID (\<lambda>x. wset_WorkerID_update (\<lambda>_. x))),
      (''enabled'', dec_field dec_bool wset_Enabled (\<lambda>x. wset_Enabled_update (\<lambda>_. x))),
      (''draining'', dec_field dec_bool wset_Draining (\<lambda>x. wset_Draining_update (\<lambda>_. x)))]"

definition zero_worker_setting :: worker_setting where
  "zero_worker_setting = \<lparr>wset_WorkerID = [], wset_Enabled = False, wset_Draining = False\<rparr>"

definition dec_runtimeSnapshot :: "runtimeSnapshot decoder" where
  "dec_runtimeSnapshot = dec_struct
     [(''config_version'', dec_field dec_u64 rs_ConfigVersion (\<lambda>x. rs_ConfigVersion_update (\<lambda>_. x))),
      (''worker_settings'', dec_field (dec_list dec_worker_setting zero_worker_setting) rs_WorkerSettings
         (\<lambda>x. rs_WorkerSettings_update (\<lambda>_. x)))]"

definition decodeSnapshot :: "bytes \<Rightarrow> runtimeSnapshot option" where
  "decodeSnapshot raw =
     (case json_Unmarshal dec_runtimeSnapshot (bytes_text raw) \<lparr>rs_ConfigVersion = 0, rs_WorkerSettings = []\<rparr> of
        (None, snapshot) \<Rightarrow> Some snapshot | (Some _, _) \<Rightarrow> None)"

definition runtimeSnapshotAckSubject :: string where
  "runtimeSnapshotAckSubject = ''straw.v1.config.ack''"

text \<open>The acknowledgement, a map whose keys \<open>json.Marshal\<close> writes in order.\<close>

definition snapshotAck :: "string \<Rightarrow> u64 \<Rightarrow> string" where
  "snapshotAck workerID version = print_json (JObject
     [(''config_version'', JNumber (show_int (uint version))), (''status'', JString ''applied''),
      (''worker_id'', JString workerID)])"

fun settingDraining :: "string \<Rightarrow> worker_setting list \<Rightarrow> bool" where
  "settingDraining workerID [] = False"
| "settingDraining workerID (s # ss) =
     (if wset_WorkerID s = workerID then wset_Draining s \<or> \<not> wset_Enabled s else settingDraining workerID ss)"

text \<open>
  The handler of a snapshot message: the server after it, and the subject and text of the
  acknowledgement published, if any.
\<close>

definition handleSnapshot ::
  "(bool \<Rightarrow> 'w \<Rightarrow> 'w) \<Rightarrow> Identity \<Rightarrow> bytes \<Rightarrow> 'w \<Rightarrow> 'w \<times> (string \<times> string) option" where
  "handleSnapshot setDraining identity raw w =
     (case decodeSnapshot raw of
        None \<Rightarrow> (w, None)
      | Some snapshot \<Rightarrow>
          (setDraining (settingDraining (id_WorkerID identity) (rs_WorkerSettings snapshot)) w,
           Some (runtimeSnapshotAckSubject, snapshotAck (id_WorkerID identity) (rs_ConfigVersion snapshot))))"

section \<open>The heartbeat loop\<close>

text \<open>
  What a beat meets: the server when its active requests are read and when its draining flag is, the
  time, whether the context of the session is done, and the connection at that moment.
\<close>

record 'w beat =
  bt_server :: 'w
  bt_later :: 'w
  bt_now :: i64
  bt_ctxDone :: bool
  bt_conn :: "nats_conn option"

datatype 'w loop_event = HbTick "'w beat" | HbCtxDone "'w beat"

datatype runtime_action =
    SetReady bool
  | SendHeartbeat HeartbeatRequest
  | SubscribeSnapshots
  | UnsubscribeSnapshots
  | StartServe string
  | StopServe

text \<open>The argument \<open>hbCtx\<close>: the context of the session, or \<open>context.WithoutCancel\<close> of it, which is never done.\<close>

datatype heartbeat_context = SessionContext | WithoutCancel

fun hbCtxDone :: "heartbeat_context \<Rightarrow> 'w beat \<Rightarrow> bool" where
  "hbCtxDone SessionContext b = bt_ctxDone b"
| "hbCtxDone WithoutCancel b = False"

definition heartbeatMessage ::
  "'w assignment_server \<Rightarrow> Identity \<Rightarrow> string \<Rightarrow> Capabilities \<Rightarrow> bool \<Rightarrow> 'w beat \<Rightarrow> HeartbeatRequest" where
  "heartbeatMessage srv identity sessionID caps draining b =
     (let active = srv_ActiveRequests srv (bt_server b);
          draining' = (case srv_controller srv of Some (_, get) \<Rightarrow> draining \<or> get (bt_later b) | None \<Rightarrow> draining)
      in BuildHeartbeat identity sessionID WORKER_HEALTH_READY active
           (capacityFromConcurrency active (cp_MaxConcurrency caps)) (cp_MaxConcurrency caps) draining' (bt_now b))"

text \<open>The error of the heartbeat, and the action when the connection was asked.\<close>

definition sendHeartbeat ::
  "runtime_env \<Rightarrow> 'w assignment_server \<Rightarrow> Identity \<Rightarrow> string \<Rightarrow> Capabilities \<Rightarrow> heartbeat_context \<Rightarrow> bool
     \<Rightarrow> 'w beat \<Rightarrow> call_error option \<times> runtime_action list" where
  "sendHeartbeat E srv identity sessionID caps hbCtx draining b =
     (let hb = heartbeatMessage srv identity sessionID caps draining b; ctxDone = hbCtxDone hbCtx b
      in (Heartbeat E ctxDone (bt_conn b) hb,
          if asks E ctxDone (bt_conn b) (Envelope_HeartbeatRequest hb) then [SendHeartbeat hb] else []))"

fun heartbeatTicks ::
  "runtime_env \<Rightarrow> 'w assignment_server \<Rightarrow> Identity \<Rightarrow> string \<Rightarrow> Capabilities \<Rightarrow> 'w loop_event list
     \<Rightarrow> bool option \<times> runtime_action list" where
  "heartbeatTicks E srv identity sid caps [] = (None, [])"
| "heartbeatTicks E srv identity sid caps (HbCtxDone b # es) =
     (Some False, SetReady False # snd (sendHeartbeat E srv identity sid caps WithoutCancel True b))"
| "heartbeatTicks E srv identity sid caps (HbTick b # es) =
     (case sendHeartbeat E srv identity sid caps SessionContext False b of
        (err, act) \<Rightarrow>
          (if err = Some errHeartbeatRejected then (Some True, act)
           else (case heartbeatTicks E srv identity sid caps es of (res, as) \<Rightarrow> (res, act @ as))))"

text \<open>\<open>runHeartbeatLoop\<close>: the first heartbeat, then the ticks; \<open>Some True\<close> when the session is lost.\<close>

definition runHeartbeatLoop ::
  "runtime_env \<Rightarrow> 'w assignment_server \<Rightarrow> Identity \<Rightarrow> string \<Rightarrow> Capabilities \<Rightarrow> 'w beat \<Rightarrow> 'w loop_event list
     \<Rightarrow> bool option \<times> runtime_action list" where
  "runHeartbeatLoop E srv identity sid caps b es = heartbeatTicks E srv identity sid caps (HbTick b # es)"

section \<open>Sessions and \<open>Run\<close>\<close>

text \<open>
  A session: the server the factory returns (or its error), whether the subscription to snapshots
  succeeds, the first beat and the events of the loop.
\<close>

record 'w session =
  se_server :: "string + 'w assignment_server"
  se_subscribes :: bool
  se_first :: "'w beat"
  se_events :: "'w loop_event list"

datatype session_result = SessionRunning | SessionError string | SessionEnded bool

definition runSession :: "runtime_env \<Rightarrow> Identity \<Rightarrow> Capabilities \<Rightarrow> string \<Rightarrow> 'w session \<Rightarrow> session_result \<times> runtime_action list" where
  "runSession E identity caps sid se =
     (case se_server se of
        Inl err \<Rightarrow> (SessionError err, [])
      | Inr srv \<Rightarrow>
          (let sub = srv_controller srv \<noteq> None \<and> se_subscribes se;
               begin = (if sub then [SubscribeSnapshots] else []) @ [StartServe sid];
               finish = [StopServe] @ (if sub then [UnsubscribeSnapshots] else [])
           in case runHeartbeatLoop E srv identity sid caps (se_first se) (se_events se) of
                (None, as) \<Rightarrow> (SessionRunning, begin @ as)
              | (Some lost, as) \<Rightarrow> (SessionEnded lost, begin @ as @ finish)))"

datatype run_result = StillRunning | RunStopped | RunFailed string | RunCancelled | errAssignmentFactoryRequired

fun runLoop ::
  "runtime_env \<Rightarrow> Identity \<Rightarrow> Capabilities \<Rightarrow> (retry_round list \<times> 'w session) list \<Rightarrow> run_result \<times> runtime_action list" where
  "runLoop E identity caps [] = (StillRunning, [])"
| "runLoop E identity caps ((rounds, se) # rest) =
     (case fst (registerWithRetry registerBackoffFloor registerBackoffMax rounds) of
        StillRegistering \<Rightarrow> (StillRunning, [])
      | RegisterCancelled \<Rightarrow> (RunCancelled, [])
      | Registered sid \<Rightarrow>
          (case runSession E identity caps sid se of
             (SessionRunning, as) \<Rightarrow> (StillRunning, SetReady True # as)
           | (SessionError err, as) \<Rightarrow> (RunFailed err, SetReady True # as @ [SetReady False])
           | (SessionEnded False, as) \<Rightarrow> (RunStopped, SetReady True # as @ [SetReady False])
           | (SessionEnded True, as) \<Rightarrow>
               (case runLoop E identity caps rest of
                  (res, as') \<Rightarrow> (res, SetReady True # as @ [SetReady False] @ as'))))"

definition Run ::
  "runtime_env \<Rightarrow> Identity \<Rightarrow> Capabilities \<Rightarrow> bool \<Rightarrow> (retry_round list \<times> 'w session) list \<Rightarrow> run_result \<times> runtime_action list" where
  "Run E identity caps hasFactory sessions =
     (if \<not> hasFactory then (errAssignmentFactoryRequired, [])
      else (case runLoop E identity caps sessions of (res, as) \<Rightarrow> (res, SetReady False # as)))"

definition defaultHeartbeatInterval :: int where
  "defaultHeartbeatInterval = 5000000000"

definition heartbeatPeriod :: "int \<Rightarrow> int" where
  "heartbeatPeriod interval = (if interval \<le> 0 then defaultHeartbeatInterval else interval)"

end
