(* ===== verification/Runtime_Safety.thy ===== *)
theory Runtime_Safety
  imports Runtime Worker_Safety
begin

text \<open>
  What the runtime guarantees: registration, the backoff and progress of its retries, the readiness
  flag, the contents of heartbeats, the release of what a session holds, and snapshots.
\<close>

section \<open>Snapshots, for any controller\<close>

lemma settingDraining_find:
  "settingDraining wid ss = (case find (\<lambda>s. wset_WorkerID s = wid) ss of
     None \<Rightarrow> False | Some s \<Rightarrow> wset_Draining s \<or> \<not> wset_Enabled s)"
  by (induction wid ss rule: settingDraining.induct) auto

context runtime_controller
begin

lemma snapshot_draining:
  "decodeSnapshot raw = Some snapshot \<Longrightarrow>
     draining (fst (handleSnapshot set_draining identity raw w))
       = settingDraining (id_WorkerID identity) (rs_WorkerSettings snapshot)"
  by (simp add: handleSnapshot_def draining_set)

lemma snapshot_active: "active (fst (handleSnapshot set_draining identity raw w)) = active w"
  by (simp add: handleSnapshot_def active_set split: option.splits)

lemma snapshot_again:
  "handleSnapshot set_draining identity raw (fst (handleSnapshot set_draining identity raw w))
     = handleSnapshot set_draining identity raw w"
  by (simp add: handleSnapshot_def set_set split: option.splits)

lemma snapshot_last:
  "decodeSnapshot raw' = Some snapshot' \<Longrightarrow>
   fst (handleSnapshot set_draining identity raw' (fst (handleSnapshot set_draining identity raw w)))
     = fst (handleSnapshot set_draining identity raw' w)"
  by (simp add: handleSnapshot_def set_set split: option.splits)

end

section \<open>Retries\<close>

lemma double_capped:
  fixes b m :: int
  assumes "0 \<le> m"
  shows "min (min (b * 2) m * 2 ^ k) m = min (b * 2 ^ Suc k) m"
proof (cases "b * 2 \<le> m")
  case True
  then show ?thesis by (simp add: min_absorb1 mult.assoc)
next
  case False
  have m: "m \<le> m * 2 ^ k" using assms by (simp add: mult_le_cancel_left1)
  have "m * 2 ^ k \<le> (b * 2) * 2 ^ k" using False by (intro mult_right_mono) auto
  from order_trans [OF m this] have "m \<le> b * 2 ^ Suc k" by (simp add: mult.assoc)
  then show ?thesis using False m by (simp add: min_absorb2)
qed

lemma retry_waits:
  assumes "b \<le> m" and "0 \<le> b"
  shows "snd (registerWithRetry b m rs) = map (\<lambda>k. min (b * 2 ^ k) m) [0..<length (snd (registerWithRetry b m rs))]"
  using assms
proof (induction b m rs rule: registerWithRetry.induct)
  case (2 b m r rs)
  let ?b = "min (b * 2) m"
  have m: "0 \<le> m" using "2.prems" by simp
  show ?case
  proof (cases "(\<exists>err. rd_result r = Inl err) \<and> \<not> rd_ctxErr r \<and> \<not> rd_cut r")
    case True
    then obtain err where r: "rd_result r = Inl err" "\<not> rd_ctxErr r" "\<not> rd_cut r" by blast
    let ?ws = "snd (registerWithRetry ?b m rs)"
    have ih: "?ws = map (\<lambda>k. min (?b * 2 ^ k) m) [0..<length ?ws]"
      using "2.IH" [OF r] "2.prems" by (simp add: registerBackoffFactor_def)
    have "snd (registerWithRetry b m (r # rs)) = b # ?ws"
      using r by (simp add: registerBackoffFactor_def split: prod.splits)
    moreover have "?ws = map (\<lambda>k. min (b * 2 ^ Suc k) m) [0..<length ?ws]"
      by (subst ih) (simp only: double_capped [OF m])
    then have "b # ?ws = map (\<lambda>k. min (b * 2 ^ k) m) [0..<Suc (length ?ws)]"
      unfolding upt_conv_Cons [OF zero_less_Suc] map_Suc_upt [symmetric]
      using "2.prems" by (simp add: min_absorb1 comp_def)
    ultimately show ?thesis by simp
  next
    case False
    then show ?thesis using "2.prems" by (cases "rd_result r") (auto simp: min_absorb1)
  qed
qed simp

text \<open>The first round that succeeds decides, if no round before it is cancelled.\<close>

lemma first_split:
  "(\<exists>pre q post. r # rs = pre @ q # post \<and> P q \<and> (\<forall>x\<in>set pre. Q x)) \<longleftrightarrow>
     P r \<or> (Q r \<and> (\<exists>pre q post. rs = pre @ q # post \<and> P q \<and> (\<forall>x\<in>set pre. Q x)))" (is "?l \<longleftrightarrow> ?r")
proof
  assume ?l
  then obtain pre q post where e: "r # rs = pre @ q # post" "P q" "\<forall>x\<in>set pre. Q x" by blast
  then show ?r by (cases pre) auto
next
  assume ?r
  then consider "P r" | pre q post where "Q r" "rs = pre @ q # post" "P q" "\<forall>x\<in>set pre. Q x" by blast
  then show ?l
  proof cases
    case 1
    then show ?thesis by (intro exI [of _ "[]"]) simp
  next
    case 2
    then show ?thesis by (intro exI [of _ "r # pre"] exI [of _ q] exI [of _ post]) simp
  qed
qed

lemma retry_registered:
  "fst (registerWithRetry b m rs) = Registered sid \<longleftrightarrow>
     (\<exists>pre r post. rs = pre @ r # post \<and> rd_result r = Inr sid
        \<and> (\<forall>q\<in>set pre. (\<exists>err. rd_result q = Inl err) \<and> \<not> rd_ctxErr q \<and> \<not> rd_cut q))"
proof (induction b m rs rule: registerWithRetry.induct)
  case (2 b m r rs)
  show ?case
  proof (cases "rd_result r")
    case (Inl err)
    then show ?thesis
      unfolding first_split using 2 by (cases "rd_ctxErr r"; cases "rd_cut r") (simp_all add: case_prod_beta)
  next
    case (Inr sid')
    then show ?thesis unfolding first_split by simp
  qed
qed simp

section \<open>The heartbeat loop\<close>

fun event_beat :: "'w loop_event \<Rightarrow> 'w beat" where
  "event_beat (HbTick b) = b"
| "event_beat (HbCtxDone b) = b"

fun ends :: "'w loop_event \<Rightarrow> bool" where
  "ends (HbTick b) = False"
| "ends (HbCtxDone b) = True"

text \<open>The message of an event, and whether the connection is asked with it.\<close>

definition event_message ::
  "'w assignment_server \<Rightarrow> Identity \<Rightarrow> string \<Rightarrow> Capabilities \<Rightarrow> 'w loop_event \<Rightarrow> HeartbeatRequest" where
  "event_message srv identity sid caps e = heartbeatMessage srv identity sid caps (ends e) (event_beat e)"

definition heartbeat_envelope :: "HeartbeatRequest \<Rightarrow> Envelope" where
  "heartbeat_envelope hb = empty_envelope\<lparr>protocol_major := 1, env_payload := Some (Envelope_HeartbeatRequest hb)\<rparr>"

lemma session_envelope [simp]:
  "sessionEnvelope (Envelope_HeartbeatRequest hb) = heartbeat_envelope hb"
  by (simp add: sessionEnvelope_def heartbeat_envelope_def empty_envelope_def ProtocolMajor_def)

definition reaches ::
  "runtime_env \<Rightarrow> 'w assignment_server \<Rightarrow> Identity \<Rightarrow> string \<Rightarrow> Capabilities \<Rightarrow> 'w loop_event \<Rightarrow> bool" where
  "reaches E srv identity sid caps e \<longleftrightarrow>
     re_marshal E (heartbeat_envelope (event_message srv identity sid caps e)) \<noteq> None
     \<and> bt_conn (event_beat e) \<noteq> None \<and> (ends e \<or> \<not> bt_ctxDone (event_beat e))"

text \<open>
  Control rejects the heartbeat of a tick: the context is alive, the message is encoded and answered,
  and the answer decodes to an acknowledgement that is not positive.
\<close>

definition rejected ::
  "runtime_env \<Rightarrow> 'w assignment_server \<Rightarrow> Identity \<Rightarrow> string \<Rightarrow> Capabilities \<Rightarrow> 'w loop_event \<Rightarrow> bool" where
  "rejected E srv identity sid caps e \<longleftrightarrow>
     (\<exists>b c raw data env. e = HbTick b \<and> \<not> bt_ctxDone b \<and> bt_conn b = Some c
        \<and> re_marshal E (heartbeat_envelope (event_message srv identity sid caps e)) = Some raw
        \<and> c ''straw.v1.control.heartbeat'' raw = Some data \<and> re_unmarshal E data = Some env
        \<and> env_payload env = Some (Envelope_HeartbeatAck False))"

definition passes ::
  "runtime_env \<Rightarrow> 'w assignment_server \<Rightarrow> Identity \<Rightarrow> string \<Rightarrow> Capabilities \<Rightarrow> 'w loop_event \<Rightarrow> bool" where
  "passes E srv identity sid caps e \<longleftrightarrow> \<not> ends e \<and> \<not> rejected E srv identity sid caps e"

lemma heartbeat_rejected:
  "Heartbeat E ctxDone conn hb = Some errHeartbeatRejected \<longleftrightarrow>
     (\<exists>c raw data env. \<not> ctxDone \<and> conn = Some c \<and> re_marshal E (heartbeat_envelope hb) = Some raw
        \<and> c ''straw.v1.control.heartbeat'' raw = Some data \<and> re_unmarshal E data = Some env
        \<and> env_payload env = Some (Envelope_HeartbeatAck False))"
proof -
  have ack: "GetHeartbeatAck env = Some ok \<longleftrightarrow> env_payload env = Some (Envelope_HeartbeatAck ok)" for env ok
    by (auto simp: GetHeartbeatAck_def split: option.splits EnvelopePayload.splits)
  have "Heartbeat E ctxDone conn hb = Some errHeartbeatRejected \<longleftrightarrow>
      (\<exists>env. exchange E ctxDone conn HeartbeatSubject (Envelope_HeartbeatRequest hb) = Inr env
         \<and> GetHeartbeatAck env = Some False)"
    by (auto simp: Heartbeat_def exchange_def split: sum.splits option.splits if_splits)
  then show ?thesis unfolding ack
    by (auto simp: exchange_def request_def HeartbeatSubject_def MarshalEnvelope_def UnmarshalEnvelope_def
        split: option.splits sum.splits if_splits)
qed

lemma tick_error:
  "fst (sendHeartbeat E srv identity sid caps SessionContext False b) = Some errHeartbeatRejected
     \<longleftrightarrow> rejected E srv identity sid caps (HbTick b)"
  by (auto simp: sendHeartbeat_def heartbeat_rejected rejected_def event_message_def Let_def)

definition event_action ::
  "runtime_env \<Rightarrow> 'w assignment_server \<Rightarrow> Identity \<Rightarrow> string \<Rightarrow> Capabilities \<Rightarrow> 'w loop_event \<Rightarrow> runtime_action list" where
  "event_action E srv identity sid caps e =
     (if reaches E srv identity sid caps e then [SendHeartbeat (event_message srv identity sid caps e)] else [])"

lemma sent_action:
  "snd (sendHeartbeat E srv identity sid caps SessionContext False b) = event_action E srv identity sid caps (HbTick b)"
  "snd (sendHeartbeat E srv identity sid caps WithoutCancel True b) = event_action E srv identity sid caps (HbCtxDone b)"
  by (auto simp: sendHeartbeat_def event_action_def reaches_def asks_def MarshalEnvelope_def event_message_def Let_def
      split: option.splits)

text \<open>The loop in terms of these notions.\<close>

lemma heartbeatTicks_Cons:
  "heartbeatTicks E srv identity sid caps (e # es) =
     (if ends e then (Some False, SetReady False # event_action E srv identity sid caps e)
      else if rejected E srv identity sid caps e then (Some True, event_action E srv identity sid caps e)
      else (case heartbeatTicks E srv identity sid caps es of
              (res, as) \<Rightarrow> (res, event_action E srv identity sid caps e @ as)))"
proof (cases e)
  case (HbTick b)
  obtain err act where s: "sendHeartbeat E srv identity sid caps SessionContext False b = (err, act)" by fastforce
  have "err = Some errHeartbeatRejected \<longleftrightarrow> rejected E srv identity sid caps e"
    and "act = event_action E srv identity sid caps e"
    using tick_error [of E srv identity sid caps b] sent_action(1) [of E srv identity sid caps b]
    by (simp_all add: s HbTick)
  then show ?thesis using s HbTick by simp
qed (simp add: sent_action)

lemma ticks_lost:
  "fst (heartbeatTicks E srv identity sid caps es) = Some True \<longleftrightarrow>
     (\<exists>pre e post. es = pre @ e # post \<and> rejected E srv identity sid caps e
        \<and> (\<forall>x\<in>set pre. passes E srv identity sid caps x))"
proof (induction es)
  case (Cons e es)
  have "ends e \<Longrightarrow> \<not> rejected E srv identity sid caps e" by (auto simp: rejected_def)
  then show ?case
    unfolding first_split heartbeatTicks_Cons
    unfolding Cons.IH [symmetric]
    by (auto simp: passes_def case_prod_beta)
qed simp

text \<open>
  The events the loop uses: all of them while it goes on, else up to the first that does not pass. The
  actions are their heartbeats, after the readiness flag in the case of the end.
\<close>

lemma ticks_used:
  obtains (running) "fst (heartbeatTicks E srv identity sid caps es) = None"
      "\<forall>x\<in>set es. passes E srv identity sid caps x"
      "snd (heartbeatTicks E srv identity sid caps es) = concat (map (event_action E srv identity sid caps) es)"
  | (ended) pre e post where "es = pre @ e # post" "\<forall>x\<in>set pre. passes E srv identity sid caps x"
      "\<not> passes E srv identity sid caps e" "fst (heartbeatTicks E srv identity sid caps es) = Some (\<not> ends e)"
      "snd (heartbeatTicks E srv identity sid caps es) = concat (map (event_action E srv identity sid caps) pre)
         @ (if ends e then [SetReady False] else []) @ event_action E srv identity sid caps e"
proof (induction es arbitrary: thesis)
  case Nil
  show ?case by (rule Nil.prems(1)) simp_all
next
  case (Cons e es)
  show ?case
  proof (cases "passes E srv identity sid caps e")
    case False
    show ?thesis by (rule Cons.prems(2) [of "[]" e es]) (use False in \<open>auto simp: heartbeatTicks_Cons passes_def\<close>)
  next
    case True
    then have t: "fst (heartbeatTicks E srv identity sid caps (e # es)) = fst (heartbeatTicks E srv identity sid caps es)"
      "snd (heartbeatTicks E srv identity sid caps (e # es))
         = event_action E srv identity sid caps e @ snd (heartbeatTicks E srv identity sid caps es)"
      by (simp_all add: heartbeatTicks_Cons passes_def case_prod_beta)
    show ?thesis
    proof (rule Cons.IH)
      assume "fst (heartbeatTicks E srv identity sid caps es) = None" "\<forall>x\<in>set es. passes E srv identity sid caps x"
        "snd (heartbeatTicks E srv identity sid caps es) = concat (map (event_action E srv identity sid caps) es)"
      then show ?thesis using True by (intro Cons.prems(1)) (simp_all add: t)
    next
      fix pre l post
      assume "es = pre @ l # post" "\<forall>x\<in>set pre. passes E srv identity sid caps x" "\<not> passes E srv identity sid caps l"
        "fst (heartbeatTicks E srv identity sid caps es) = Some (\<not> ends l)"
        "snd (heartbeatTicks E srv identity sid caps es) = concat (map (event_action E srv identity sid caps) pre)
           @ (if ends l then [SetReady False] else []) @ event_action E srv identity sid caps l"
      then show ?thesis using True t by (intro Cons.prems(2) [of "e # pre" l post]) simp_all
    qed
  qed
qed

text \<open>The heartbeats among the actions.\<close>

fun heartbeat_of :: "runtime_action \<Rightarrow> HeartbeatRequest list" where
  "heartbeat_of (SendHeartbeat hb) = [hb]"
| "heartbeat_of a = []"

definition heartbeats :: "runtime_action list \<Rightarrow> HeartbeatRequest list" where
  "heartbeats as = concat (map heartbeat_of as)"

lemma heartbeats_simps [simp]:
  "heartbeats [] = []" "heartbeats (a # as) = heartbeat_of a @ heartbeats as"
  "heartbeats (as @ bs) = heartbeats as @ heartbeats bs"
  by (simp_all add: heartbeats_def)

lemma heartbeats_actions:
  "heartbeats (concat (map (event_action E srv identity sid caps) es))
     = map (event_message srv identity sid caps) (filter (reaches E srv identity sid caps) es)"
  by (induction es) (simp_all add: event_action_def)

lemma ticks_heartbeats:
  "\<exists>used rest. es = used @ rest \<and> (fst (heartbeatTicks E srv identity sid caps es) = None \<longrightarrow> rest = [])
     \<and> (\<forall>x\<in>set (butlast used). passes E srv identity sid caps x)
     \<and> (fst (heartbeatTicks E srv identity sid caps es) \<noteq> None \<longrightarrow>
          used \<noteq> [] \<and> \<not> passes E srv identity sid caps (last used))
     \<and> heartbeats (snd (heartbeatTicks E srv identity sid caps es))
         = map (event_message srv identity sid caps) (filter (reaches E srv identity sid caps) used)"
proof (cases rule: ticks_used [of E srv identity sid caps es])
  case running
  then show ?thesis
    by (intro exI [of _ es] exI [of _ "[]"]) (auto simp: heartbeats_actions dest: in_set_butlastD)
next
  case (ended pre e post)
  then show ?thesis
    by (intro exI [of _ "pre @ [e]"] exI [of _ post]) (auto simp: heartbeats_actions event_action_def)
qed

text \<open>The actions of the loop: heartbeats of the session, and clearing the flag.\<close>

lemma ticks_actions:
  "a \<in> set (snd (heartbeatTicks E srv identity sid caps es)) \<Longrightarrow> a = SetReady False \<or> (\<exists>hb. a = SendHeartbeat hb)"
  by (induction es) (auto simp: heartbeatTicks_Cons event_action_def case_prod_beta split: if_splits)

section \<open>The actions of \<open>Run\<close>\<close>

fun ready_after :: "bool \<Rightarrow> runtime_action list \<Rightarrow> bool" where
  "ready_after r [] = r"
| "ready_after r (SetReady b # as) = ready_after b as"
| "ready_after r (_ # as) = ready_after r as"

lemma ready_after_append: "ready_after r (as @ bs) = ready_after (ready_after r as) bs"
  by (induction r as rule: ready_after.induct) simp_all

definition is_start :: "runtime_action \<Rightarrow> bool" where
  "is_start a \<longleftrightarrow> (\<exists>sid. a = StartServe sid)"

text \<open>What is started and not stopped: servers and snapshot subscriptions.\<close>

definition balance :: "runtime_action list \<Rightarrow> int \<times> int" where
  "balance as =
     (int (length (filter is_start as)) - int (length (filter ((=) StopServe) as)),
      int (length (filter ((=) SubscribeSnapshots) as)) - int (length (filter ((=) UnsubscribeSnapshots) as)))"

lemma balance_append:
  "balance (as @ bs) = (fst (balance as) + fst (balance bs), snd (balance as) + snd (balance bs))"
  by (simp add: balance_def)

lemma ticks_balance: "balance (snd (heartbeatTicks E srv identity sid caps es)) = (0, 0)"
proof -
  have "\<not> is_start a" "a \<noteq> StopServe" "a \<noteq> SubscribeSnapshots" "a \<noteq> UnsubscribeSnapshots"
    if "a \<in> set (snd (heartbeatTicks E srv identity sid caps es))" for a
    using ticks_actions [OF that] by (auto simp: is_start_def)
  then have "filter is_start (snd (heartbeatTicks E srv identity sid caps es)) = []"
    "filter ((=) StopServe) (snd (heartbeatTicks E srv identity sid caps es)) = []"
    "filter ((=) SubscribeSnapshots) (snd (heartbeatTicks E srv identity sid caps es)) = []"
    "filter ((=) UnsubscribeSnapshots) (snd (heartbeatTicks E srv identity sid caps es)) = []"
    by (auto simp: filter_empty_conv)
  then show ?thesis by (simp add: balance_def)
qed

lemma session_balance:
  assumes "runSession E identity caps sid se = (res, as)" and "res \<noteq> SessionRunning"
  shows "balance as = (0, 0)"
proof (cases "se_server se")
  case (Inl err)
  with assms show ?thesis by (simp add: runSession_def balance_def)
next
  case (Inr srv)
  obtain r hs where t: "runHeartbeatLoop E srv identity sid caps (se_first se) (se_events se) = (r, hs)" by fastforce
  then have "balance hs = (0, 0)"
    using ticks_balance [of E srv identity sid caps "HbTick (se_first se) # se_events se"]
    by (simp only: runHeartbeatLoop_def snd_conv)
  then show ?thesis using assms Inr t
    by (cases r) (auto simp: runSession_def Let_def balance_append, auto simp: balance_def is_start_def)
qed

lemma run_loop_returns:
  "runLoop E identity caps sessions = (res, as) \<Longrightarrow> res \<noteq> StillRunning \<Longrightarrow>
     \<not> ready_after False as \<and> balance as = (0, 0)"
proof (induction sessions arbitrary: as)
  case (Cons x sessions)
  obtain rounds se where x: "x = (rounds, se)" by fastforce
  show ?case
  proof (cases "fst (registerWithRetry registerBackoffFloor registerBackoffMax rounds)")
    case (Registered sid)
    obtain sres bs where s: "runSession E identity caps sid se = (sres, bs)" by fastforce
    show ?thesis
    proof (cases sres)
      case (SessionEnded lost)
      then have b: "balance bs = (0, 0)" using session_balance [OF s] by simp
      show ?thesis
      proof (cases lost)
        case True
        obtain res' as' where r: "runLoop E identity caps sessions = (res', as')" by fastforce
        have as: "res = res'" "as = SetReady True # bs @ [SetReady False] @ as'"
          using Cons.prems(1) x Registered s SessionEnded True r by simp_all
        have "\<not> ready_after False as' \<and> balance as' = (0, 0)"
          using Cons.IH [OF r [folded as(1)]] Cons.prems(2) by simp
        then show ?thesis unfolding as(2) using b
          by (auto simp: ready_after_append balance_append balance_def is_start_def)
      next
        case False
        then have "as = SetReady True # bs @ [SetReady False]"
          using Cons.prems(1) x Registered s SessionEnded by simp
        then show ?thesis using b by (auto simp: ready_after_append balance_append balance_def is_start_def)
      qed
    next
      case (SessionError err)
      then have "as = SetReady True # bs @ [SetReady False]" using Cons.prems(1) x Registered s by simp
      moreover have "balance bs = (0, 0)" using session_balance [OF s] SessionError by simp
      ultimately show ?thesis by (auto simp: ready_after_append balance_append balance_def is_start_def)
    qed (use Cons.prems x Registered s in simp)
  qed (use Cons.prems x in \<open>auto simp: balance_def\<close>)
qed simp

section \<open>Properties\<close>

definition register_envelope :: "RegisterRequest \<Rightarrow> Envelope" where
  "register_envelope req =
     empty_envelope\<lparr>protocol_major := 1, env_payload := Some (Envelope_RegisterRequest req)\<rparr>"

text \<open>
  C25: Registration succeeds exactly when every step does: a signed request is built and encoded, the
  context is alive, the connection answers it on the registration subject, and the answer decodes
  to an acknowledgement that is positive and names a session, which is the session returned. The
  signature covers every other field of the request.
\<close>

theorem register_succeeds_iff:
  "Register E random now ctxDone conn identity caps = Inr sid \<longleftrightarrow>
     (\<exists>req raw c data env ack.
        BuildRegisterRequest (re_sign E) random now identity caps = Some req
        \<and> rr_signed_token req = re_sign E (id_PrivateKey identity) (req\<lparr>rr_signed_token := []\<rparr>)
        \<and> re_marshal E (register_envelope req) = Some raw \<and> \<not> ctxDone \<and> conn = Some c
        \<and> c ''straw.v1.control.register'' raw = Some data \<and> re_unmarshal E data = Some env
        \<and> env_payload env = Some (Envelope_RegisterAck ack) \<and> ra_ok ack \<and> ra_session_id ack = sid \<and> sid \<noteq> [])"
  (is "?l \<longleftrightarrow> ?r")
proof -
  have signed: "rr_signed_token req = re_sign E (id_PrivateKey identity) (req\<lparr>rr_signed_token := []\<rparr>)"
    if "BuildRegisterRequest (re_sign E) random now identity caps = Some req" for req
    using that by (auto simp: BuildRegisterRequest_def Let_def split: option.splits)
  have ack: "GetRegisterAck env = Some a \<longleftrightarrow> env_payload env = Some (Envelope_RegisterAck a)" for env a
    by (auto simp: GetRegisterAck_def split: option.splits EnvelopePayload.splits)
  have env: "empty_envelope\<lparr>protocol_major := ProtocolMajor, protocol_minor := 0, env_payload := Some p\<rparr>
      = empty_envelope\<lparr>protocol_major := 1, env_payload := Some p\<rparr>" for p
    by (simp add: empty_envelope_def ProtocolMajor_def)
  have ex: "exchange E ctxDone conn subject p = Inr e \<longleftrightarrow>
      (\<exists>raw c data. re_marshal E (empty_envelope\<lparr>protocol_major := 1, env_payload := Some p\<rparr>) = Some raw \<and> \<not> ctxDone
         \<and> conn = Some c \<and> c subject raw = Some data \<and> re_unmarshal E data = Some e)" for subject p e
    by (auto simp: exchange_def sessionEnvelope_def request_def env MarshalEnvelope_def UnmarshalEnvelope_def
        split: option.splits sum.splits)
  show ?thesis
  proof
    assume ?l
    then obtain req e a where b: "BuildRegisterRequest (re_sign E) random now identity caps = Some req"
      and e: "exchange E ctxDone conn RegistrationSubject (Envelope_RegisterRequest req) = Inr e"
      and a: "GetRegisterAck e = Some a" "ra_ok a" "ra_session_id a = sid" "sid \<noteq> []"
      by (auto simp: Register_def split: option.splits sum.splits if_splits)
    then show ?r using signed [OF b] unfolding ex ack RegistrationSubject_def register_envelope_def by blast
  next
    assume ?r
    then obtain req raw c data env a where b: "BuildRegisterRequest (re_sign E) random now identity caps = Some req"
      and x: "re_marshal E (register_envelope req) = Some raw" "\<not> ctxDone" "conn = Some c"
        "c ''straw.v1.control.register'' raw = Some data" "re_unmarshal E data = Some env"
      and a: "env_payload env = Some (Envelope_RegisterAck a)" "ra_ok a" "ra_session_id a = sid" "sid \<noteq> []" by blast
    have e: "exchange E ctxDone conn RegistrationSubject (Envelope_RegisterRequest req) = Inr env"
      unfolding ex RegistrationSubject_def using x by (simp add: register_envelope_def)
    have "GetRegisterAck env = Some a" using a(1) by (simp add: ack)
    then show ?l using b e a(2-4) by (simp add: Register_def)
  qed
qed

text \<open>
  C27: The waits between registration attempts double from one second and are capped at thirty: the
  wait number \<open>k\<close> is the smaller of \<open>2 ^ k\<close> seconds and thirty seconds, however long it goes on.
\<close>

theorem retry_backoff_doubles_to_cap:
  "snd (registerWithRetry registerBackoffFloor registerBackoffMax rounds)
     = map (\<lambda>k. min (2 ^ k) 30 * 1000000000)
         [0..<length (snd (registerWithRetry registerBackoffFloor registerBackoffMax rounds))]"
proof -
  have "min (registerBackoffFloor * 2 ^ k) registerBackoffMax = min (2 ^ k) 30 * 1000000000" for k
    by (simp add: registerBackoffFloor_def registerBackoffMax_def min_def)
  then show ?thesis
    using retry_waits [of registerBackoffFloor registerBackoffMax rounds]
    by (simp add: registerBackoffFloor_def registerBackoffMax_def)
qed

text \<open>
  C26: The retry loop gives up only when the context ends: it returns a session exactly when some
  attempt succeeds and no attempt before it was followed by the end of the context, and then it is
  the session of the first success.
\<close>

theorem retry_succeeds_unless_cancelled:
  "fst (registerWithRetry backoff backoffMax rounds) = Registered sid \<longleftrightarrow>
     (\<exists>pre r post. rounds = pre @ r # post \<and> rd_result r = Inr sid
        \<and> (\<forall>q\<in>set pre. (\<exists>err. rd_result q = Inl err) \<and> \<not> rd_ctxErr q \<and> \<not> rd_cut q))"
  by (rule retry_registered)

definition sample_round :: retry_round where
  "sample_round = \<lparr>rd_result = Inr ''s_7'', rd_ctxErr = False, rd_cut = False\<rparr>"

theorem retry_succeeds_unless_cancelled_witness:
  "fst (registerWithRetry 1 30 [sample_round\<lparr>rd_result := Inl BuildFailed\<rparr>, sample_round]) = Registered ''s_7''"
  by (subst retry_succeeds_unless_cancelled)
    (intro exI [of _ "[sample_round\<lparr>rd_result := Inl BuildFailed\<rparr>]"] exI [of _ sample_round] exI [of _ "[]"],
      simp add: sample_round_def)

text \<open>
  C23: When \<open>Run\<close> returns, everything it started is stopped: every assignment server it served has been
  told to stop and waited for, every subscription to snapshots is closed, in every session and on
  every error. With a factory the readiness flag is down; without one \<open>Run\<close> returns its error at once and
  touches nothing, the flag included.
\<close>

theorem run_returns_released:
  assumes "Run E identity caps hasFactory sessions = (res, as)" and "res \<noteq> StillRunning"
  shows "balance as = (0, 0)
    \<and> (if hasFactory then \<not> ready_after r as else res = errAssignmentFactoryRequired \<and> as = [] \<and> ready_after r as = r)"
proof (cases hasFactory)
  case False
  then show ?thesis using assms by (simp add: Run_def balance_def)
next
  case True
  then obtain as' where "runLoop E identity caps sessions = (res, as')" and as: "as = SetReady False # as'"
    using assms(1) by (auto simp: Run_def split: prod.splits)
  then have "\<not> ready_after False as' \<and> balance as' = (0, 0)" using run_loop_returns assms(2) by blast
  then show ?thesis unfolding as using True by (auto simp: balance_def is_start_def)
qed

text \<open>A codec that encodes every message as one byte, and a connection whose answers it decodes.\<close>

definition sample_runtime :: "bool \<Rightarrow> runtime_env" where
  "sample_runtime ok = \<lparr>re_marshal = (\<lambda>_. Some [1]),
     re_unmarshal = (\<lambda>_. Some (empty_envelope\<lparr>env_payload := Some (Envelope_HeartbeatAck ok)\<rparr>)),
     re_sign = (\<lambda>_ _. [])\<rparr>"

definition sample_beat :: "bool \<Rightarrow> Worker beat" where
  "sample_beat d = \<lparr>bt_server = sample_worker, bt_later = SetDraining d sample_worker, bt_now = 0, bt_ctxDone = False,
     bt_conn = Some (\<lambda>_ _. Some [])\<rparr>"

definition sample_caps :: Capabilities where
  "sample_caps = \<lparr>cp_AllowedPools = [], cp_Tags = [], cp_Countries = [], cp_Regions = [], cp_IPTypes = [],
     cp_SupportedIngressModes = [], cp_SupportedFingerprintProfiles = [], cp_MaxConcurrency = 1,
     cp_SoftwareVersion = [], cp_InitialDraining = False\<rparr>"

definition sample_session :: "Worker session" where
  "sample_session = \<lparr>se_server = Inr worker_server, se_subscribes = True, se_first = sample_beat False,
     se_events = [HbCtxDone (sample_beat False)]\<rparr>"

lemmas runtime_eval = Run_def sample_round_def sample_session_def runSession_def runHeartbeatLoop_def sample_beat_def
  worker_server_def Let_def sendHeartbeat_def Heartbeat_def exchange_def sample_runtime_def MarshalEnvelope_def
  UnmarshalEnvelope_def request_def GetHeartbeatAck_def asks_def empty_envelope_def

theorem run_returns_released_witness:
  "\<exists>as. Run (sample_runtime True) (wo_Identity sample_opts) sample_caps True [([sample_round], sample_session)] = (RunStopped, as)
     \<and> StartServe ''s_7'' \<in> set as \<and> \<not> ready_after True as \<and> balance as = (0, 0)"
proof -
  let ?r = "Run (sample_runtime True) (wo_Identity sample_opts) sample_caps True [([sample_round], sample_session)]"
  have "fst ?r = RunStopped" and start: "StartServe ''s_7'' \<in> set (snd ?r)"
    by (simp_all add: runtime_eval)
  then obtain as where r: "?r = (RunStopped, as)" by (metis prod.collapse)
  then show ?thesis using run_returns_released [OF r, of True] start by simp
qed

text \<open>What a heartbeat has to say of a worker at an event of the loop.\<close>

definition worker_report :: "Identity \<Rightarrow> string \<Rightarrow> Capabilities \<Rightarrow> Worker loop_event \<Rightarrow> HeartbeatRequest" where
  "worker_report identity sid caps e =
     \<lparr>hb_worker_id = id_WorkerID identity, hb_session_id = sid, hb_health = WORKER_HEALTH_READY,
      hb_active_requests = ActiveRequests (bt_server (event_beat e)),
      hb_available_capacity = of_nat (unat (cp_MaxConcurrency caps) - unat (ActiveRequests (bt_server (event_beat e)))),
      hb_max_concurrency = cp_MaxConcurrency caps,
      hb_draining = (Draining (bt_later (event_beat e)) \<or> ends e),
      hb_worker_timestamp_ms = bt_now (event_beat e)\<rparr>"

lemma worker_message: "event_message worker_server identity sid caps e = worker_report identity sid caps e"
proof -
  have "unat (capacityFromConcurrency a m) = unat m - unat a" for a m
    by (auto simp: capacityFromConcurrency_def word_le_nat_alt unat_sub_le not_le)
  moreover have "of_nat (unat x) = x" for x :: u32 by simp
  ultimately have "capacityFromConcurrency a m = of_nat (unat m - unat a)" for a m by metis
  then show ?thesis
    by (auto simp: event_message_def heartbeatMessage_def BuildHeartbeat_def worker_report_def worker_server_def Let_def)
qed

text \<open>
  C29: The heartbeats of a session of a \<open>Worker\<close> are, one for one and in order, the reports of the events
  the loop meets, up to the first rejection or the end of the context: of every event whose heartbeat reaches the
  connection (a message that does not encode, a nil connection or, before the end, a done context keep it back).
  The report gives the session, the time, the active requests, the room left under the limit as a difference of natural
  numbers, and draining exactly when the worker drains or the context has ended.
\<close>

theorem heartbeat_reports_worker:
  assumes "runHeartbeatLoop E worker_server identity sid caps b es = (res, as)"
  shows "\<exists>used rest. HbTick b # es = used @ rest \<and> (res = None \<longrightarrow> rest = [])
     \<and> (\<forall>x\<in>set (butlast used). passes E worker_server identity sid caps x)
     \<and> (res \<noteq> None \<longrightarrow> used \<noteq> [] \<and> \<not> passes E worker_server identity sid caps (last used))
     \<and> heartbeats as = map (worker_report identity sid caps) (filter (reaches E worker_server identity sid caps) used)"
  using ticks_heartbeats [of "HbTick b # es" E worker_server identity sid caps] assms
  by (simp add: runHeartbeatLoop_def worker_message [abs_def])

theorem heartbeat_reports_worker_witness:
  "\<exists>res as used rest. runHeartbeatLoop (sample_runtime True) worker_server (wo_Identity sample_opts) ''s_7'' sample_caps
       (sample_beat True) [HbTick (sample_beat False)] = (res, as)
    \<and> [HbTick (sample_beat True), HbTick (sample_beat False)] = used @ rest
    \<and> heartbeats as = map (worker_report (wo_Identity sample_opts) ''s_7'' sample_caps)
        (filter (reaches (sample_runtime True) worker_server (wo_Identity sample_opts) ''s_7'' sample_caps) used)
    \<and> map hb_draining (heartbeats as) = [True, False]"
proof -
  let ?r = "runHeartbeatLoop (sample_runtime True) worker_server (wo_Identity sample_opts) ''s_7'' sample_caps
    (sample_beat True) [HbTick (sample_beat False)]"
  obtain res as where r: "?r = (res, as)" by fastforce
  have "map hb_draining (heartbeats (snd ?r)) = [True, False]"
    by (simp add: runtime_eval heartbeatMessage_def BuildHeartbeat_def Draining_def SetDraining_def sample_worker_def)
  then show ?thesis using heartbeat_reports_worker [OF r] r by auto
qed

text \<open>
  C24: A session ends as it is told: it is lost exactly when Control rejects a heartbeat before the
  context ends, no other heartbeat error ends it, and when the context ends the readiness flag is cleared and
  then, although the context is done, a last heartbeat that says draining is sent, unless it does not encode or
  there is no connection.
\<close>

theorem session_ends_as_told:
  fixes srv :: "'w assignment_server"
  shows "(fst (runHeartbeatLoop E srv identity sid caps b es) = Some True \<longleftrightarrow>
      (\<exists>pre e post. HbTick b # es = pre @ e # post \<and> rejected E srv identity sid caps e
         \<and> (\<forall>x\<in>set pre. passes E srv identity sid caps x)))
   \<and> (\<forall>as. runHeartbeatLoop E srv identity sid caps b es = (Some False, as) \<longrightarrow>
      (\<exists>pre c hb. HbCtxDone c \<in> set es \<and> hb_draining hb \<and> hb_session_id hb = sid
         \<and> as = pre @ SetReady False #
             (if re_marshal E (heartbeat_envelope hb) \<noteq> None \<and> bt_conn c \<noteq> None then [SendHeartbeat hb] else [])))"
proof (intro conjI allI impI)
  show "fst (runHeartbeatLoop E srv identity sid caps b es) = Some True \<longleftrightarrow>
      (\<exists>pre e post. HbTick b # es = pre @ e # post \<and> rejected E srv identity sid caps e
         \<and> (\<forall>x\<in>set pre. passes E srv identity sid caps x))"
    unfolding runHeartbeatLoop_def by (rule ticks_lost)
next
  fix as assume r: "runHeartbeatLoop E srv identity sid caps b es = (Some False, as)"
  show "\<exists>pre c hb. HbCtxDone c \<in> set es \<and> hb_draining hb \<and> hb_session_id hb = sid
         \<and> as = pre @ SetReady False #
             (if re_marshal E (heartbeat_envelope hb) \<noteq> None \<and> bt_conn c \<noteq> None then [SendHeartbeat hb] else [])"
  proof (cases rule: ticks_used [of E srv identity sid caps "HbTick b # es"])
    case (ended pre e post)
    then have "ends e" using r by (simp add: runHeartbeatLoop_def)
    then obtain c where c: "e = HbCtxDone c" by (cases e) auto
    let ?hb = "event_message srv identity sid caps e"
    have "hb_draining ?hb" "hb_session_id ?hb = sid"
      by (auto simp: c event_message_def heartbeatMessage_def BuildHeartbeat_def Let_def split: option.splits)
    moreover have "HbCtxDone c \<in> set es" using ended(1) c by (cases pre) auto
    moreover have "as = concat (map (event_action E srv identity sid caps) pre) @ SetReady False #
        (if re_marshal E (heartbeat_envelope ?hb) \<noteq> None \<and> bt_conn c \<noteq> None then [SendHeartbeat ?hb] else [])"
      using ended(5) r c by (simp add: runHeartbeatLoop_def event_action_def reaches_def)
    ultimately show ?thesis by blast
  qed (use r in \<open>simp add: runHeartbeatLoop_def\<close>)
qed

text \<open>In the witness the context is done when the last heartbeat is sent.\<close>

theorem session_ends_as_told_witness:
  "\<exists>pre hb. snd (runHeartbeatLoop (sample_runtime True) worker_server (wo_Identity sample_opts) ''s_7'' sample_caps
       (sample_beat False) [HbCtxDone (sample_beat False\<lparr>bt_ctxDone := True\<rparr>)])
     = pre @ [SetReady False, SendHeartbeat hb] \<and> hb_draining hb"
proof -
  let ?es = "[HbCtxDone (sample_beat False\<lparr>bt_ctxDone := True\<rparr>)]"
  let ?r = "runHeartbeatLoop (sample_runtime True) worker_server (wo_Identity sample_opts) ''s_7'' sample_caps (sample_beat False) ?es"
  have "fst ?r = Some False" by (simp add: runtime_eval)
  then have "?r = (Some False, snd ?r)" by (metis prod.collapse)
  from session_ends_as_told [of "sample_runtime True" worker_server "wo_Identity sample_opts" "''s_7''" sample_caps
      "sample_beat False" ?es, THEN conjunct2, rule_format, OF this]
  show ?thesis by (fastforce simp: sample_runtime_def sample_beat_def)
qed

text \<open>The acknowledgement read back.\<close>

lemma snapshotAck_parses:
  assumes "valid_utf8 workerID"
  shows "parse_json (snapshotAck workerID version) = Some (JObject
     [(''config_version'', JNumber (show_int (uint version))), (''status'', JString ''applied''),
      (''worker_id'', JString workerID)])"
  unfolding snapshotAck_def using assms
  by (intro json_text_round_trip) (simp add: maxNestingDepth_def parse_int_show valid_utf8_ascii)

text \<open>
  C28: A snapshot decides admission and what is reported: after it the worker drains exactly when the
  first setting for it says so or disables it (and not at all when it has none), then every valid
  assignment is rejected as draining and none otherwise, the requests in flight are untouched,
  applying the same snapshot again changes nothing, and the acknowledgement is a JSON object with the
  version applied. A message that does not decode changes nothing and is not acknowledged.
\<close>

theorem snapshot_decides_admission:
  assumes "w' = fst (handleSnapshot SetDraining identity raw w)"
  shows "case decodeSnapshot raw of
      None \<Rightarrow> handleSnapshot SetDraining identity raw w = (w, None)
    | Some snapshot \<Rightarrow>
        Draining w' = (case find (\<lambda>s. wset_WorkerID s = id_WorkerID identity) (rs_WorkerSettings snapshot) of
           None \<Rightarrow> False | Some s \<Rightarrow> wset_Draining s \<or> \<not> wset_Enabled s)
        \<and> (valid r \<longrightarrow> (EvaluateAssignment valid (Some r) (snapshotCapacity w') = ASSIGN_ACK_REJECTED_DRAINING
              \<longleftrightarrow> Draining w'))
        \<and> ActiveRequests w' = ActiveRequests w
        \<and> fst (handleSnapshot SetDraining identity raw w') = w'
        \<and> (\<exists>ack. snd (handleSnapshot SetDraining identity raw w) = Some (''straw.v1.config.ack'', ack)
             \<and> (valid_utf8 (id_WorkerID identity) \<longrightarrow> parse_json ack = Some (JObject
                  [(''config_version'', JNumber (show_int (uint (rs_ConfigVersion snapshot)))),
                   (''status'', JString ''applied''), (''worker_id'', JString (id_WorkerID identity))])))"
proof (cases "decodeSnapshot raw")
  case None
  then show ?thesis by (simp add: handleSnapshot_def)
next
  case (Some snapshot)
  have "Draining w' = settingDraining (id_WorkerID identity) (rs_WorkerSettings snapshot)"
    unfolding assms by (rule worker_controller.snapshot_draining [of raw snapshot, OF Some])
  moreover have "ActiveRequests w' = ActiveRequests w"
    unfolding assms by (rule worker_controller.snapshot_active)
  moreover have "fst (handleSnapshot SetDraining identity raw w') = w'"
    unfolding assms by (simp only: worker_controller.snapshot_again)
  moreover have "valid r \<Longrightarrow> EvaluateAssignment valid (Some r) (snapshotCapacity w') = ASSIGN_ACK_REJECTED_DRAINING
      \<longleftrightarrow> Draining w'"
    by (simp add: EvaluateAssignment_def snapshotCapacity_def Draining_def)
  moreover have "snd (handleSnapshot SetDraining identity raw w)
      = Some (''straw.v1.config.ack'', snapshotAck (id_WorkerID identity) (rs_ConfigVersion snapshot))"
    by (simp add: handleSnapshot_def Some runtimeSnapshotAckSubject_def)
  ultimately show ?thesis by (simp add: Some settingDraining_find snapshotAck_parses)
qed

definition text_bytes :: "string \<Rightarrow> bytes" where
  "text_bytes s = map (\<lambda>c. of_nat (of_char c)) s"

lemma bytes_text_bytes [simp]: "bytes_text (text_bytes s) = s"
proof -
  have "unat (of_nat (of_char c) :: byte) = of_char c" for c :: char
    using nat_of_char_less_256 [of c] by (simp add: unat_of_nat)
  then show ?thesis by (simp add: bytes_text_def text_bytes_def comp_def)
qed

definition sample_json :: json where
  "sample_json = JObject [(''config_version'', JNumber (show_int 4)),
     (''worker_settings'', JArray [JObject [(''worker_id'', JString ''other''), (''enabled'', JBool True)],
        JObject [(''worker_id'', JString ''worker-1''), (''enabled'', JBool False)]])]"

lemma sample_decodes:
  "decodeSnapshot (text_bytes (print_json sample_json)) = Some \<lparr>rs_ConfigVersion = 4, rs_WorkerSettings =
     [\<lparr>wset_WorkerID = ''other'', wset_Enabled = True, wset_Draining = False\<rparr>,
      \<lparr>wset_WorkerID = ''worker-1'', wset_Enabled = False, wset_Draining = False\<rparr>]\<rparr>"
proof -
  have "fits maxNestingDepth sample_json"
    by (simp add: sample_json_def maxNestingDepth_def parse_int_show valid_utf8_ascii)
  then have "parse_json (print_json sample_json) = Some sample_json" by (rule json_text_round_trip)
  moreover have "parse_nat (show_int 4) = Some 4" using parse_nat_show [of 4] by (simp add: show_int_def)
  ultimately show ?thesis
    by (simp add: decodeSnapshot_def json_Unmarshal_def)
      (simp add: sample_json_def dec_runtimeSnapshot_def dec_worker_setting_def zero_worker_setting_def
        dec_struct_def find_field_def dec_field_def dec_list_def dec_u64_def dec_string_def dec_bool_def)
qed

theorem snapshot_decides_admission_witness:
  "Draining (fst (handleSnapshot SetDraining (wo_Identity sample_opts) (text_bytes (print_json sample_json)) sample_worker))"
  using snapshot_decides_admission [of _ "wo_Identity sample_opts"
      "text_bytes (print_json sample_json)" sample_worker, OF refl]
  by (simp add: sample_decodes sample_opts_def)

end
