(* ===== verification/Client_Types.thy ===== *)
theory Client_Types
  imports Json_Roundtrip
begin

text \<open>
  The messages of Straw's public API (\<open>types.go\<close>): the request with its routing hints, headers
  and body, the response, receipts and the error envelope. A message that is sent has the value
  \<open>json.Marshal\<close> gives it, by its field tags; a message that is received has a decoder, one entry
  per tag. \<open>read_back_Request\<close> shows that a request survives the way through its text.
\<close>

section \<open>Requests\<close>

record Header =
  h_Name :: string
  h_ValueBase64 :: string

record RequestBody =
  b_Mode :: string
  b_DataBase64 :: string
  b_ReceiptID :: string

record RoutingHints =
  ro_Tags :: "string list"
  ro_Country :: string
  ro_Region :: string
  ro_IPType :: string
  ro_StickySessionID :: string

record Request =
  rq_Method :: string
  rq_URL :: string
  rq_Headers :: "Header list"
  rq_Body :: "RequestBody option"
  rq_Routing :: "RoutingHints option"
  rq_FingerprintProfile :: string
  rq_TimeoutMs :: u64
  rq_Replayable :: bool
  rq_ReplayableOverride :: "bool option"
  rq_ResponseBodyMode :: string

definition BoolPtr :: "bool \<Rightarrow> bool option" where
  "BoolPtr value = Some value"

definition effectiveReplayable :: "Request \<Rightarrow> bool" where
  "effectiveReplayable r =
     (case rq_ReplayableOverride r of
        Some b \<Rightarrow> b
      | None \<Rightarrow> if rq_Method r \<in> {''GET'', ''HEAD'', ''OPTIONS''} then True else rq_Replayable r)"

definition string_field :: "string \<Rightarrow> string \<Rightarrow> (string \<times> json) list" where
  "string_field k s = omitempty (s = []) k (JString s)"

definition Header_json :: "Header \<Rightarrow> json" where
  "Header_json h = JObject [(''name'', JString (h_Name h)), (''value_base64'', JString (h_ValueBase64 h))]"

definition RequestBody_json :: "RequestBody \<Rightarrow> json" where
  "RequestBody_json b =
     JObject ([(''mode'', JString (b_Mode b))] @ string_field ''data_base64'' (b_DataBase64 b)
              @ string_field ''receipt_id'' (b_ReceiptID b))"

definition RoutingHints_json :: "RoutingHints \<Rightarrow> json" where
  "RoutingHints_json h =
     JObject (omitempty (ro_Tags h = []) ''tags'' (JArray (map JString (ro_Tags h)))
              @ string_field ''country'' (ro_Country h) @ string_field ''region'' (ro_Region h)
              @ string_field ''ip_type'' (ro_IPType h)
              @ string_field ''sticky_session_id'' (ro_StickySessionID h))"

definition pointer_field :: "string \<Rightarrow> ('a \<Rightarrow> json) \<Rightarrow> 'a option \<Rightarrow> (string \<times> json) list" where
  "pointer_field k f p = (case p of None \<Rightarrow> [] | Some x \<Rightarrow> [(k, f x)])"

definition Request_json :: "Request \<Rightarrow> json" where
  "Request_json r =
     JObject ([(''method'', JString (rq_Method r)), (''url'', JString (rq_URL r))]
              @ omitempty (rq_Headers r = []) ''headers'' (JArray (map Header_json (rq_Headers r)))
              @ pointer_field ''body'' RequestBody_json (rq_Body r)
              @ pointer_field ''routing'' RoutingHints_json (rq_Routing r)
              @ string_field ''fingerprint_profile'' (rq_FingerprintProfile r)
              @ omitempty (rq_TimeoutMs r = 0) ''timeout_ms'' (JNumber (show_int (uint (rq_TimeoutMs r))))
              @ [(''replayable'', JBool (effectiveReplayable r))]
              @ string_field ''response_body_mode'' (rq_ResponseBodyMode r))"

definition MarshalJSON :: "Request \<Rightarrow> string" where
  "MarshalJSON r = print_json (Request_json r)"

record CreateReceiptInput =
  ci_Direction :: string
  ci_SizeBytes :: i64
  ci_SHA256Hex :: string
  ci_IdempotencyKey :: string

definition CreateReceiptInput_json :: "CreateReceiptInput \<Rightarrow> json" where
  "CreateReceiptInput_json i =
     JObject ([(''direction'', JString (ci_Direction i)), (''size_bytes'', JNumber (show_int (sint (ci_SizeBytes i)))),
               (''sha256_hex'', JString (ci_SHA256Hex i))]
              @ string_field ''idempotency_key'' (ci_IdempotencyKey i))"

section \<open>Reading requests\<close>

definition zero_Header :: Header where
  "zero_Header = \<lparr>h_Name = [], h_ValueBase64 = []\<rparr>"

definition dec_Header :: "Header decoder" where
  "dec_Header = dec_struct
     [(''name'', dec_field dec_string h_Name (\<lambda>x. h_Name_update (\<lambda>_. x))),
      (''value_base64'', dec_field dec_string h_ValueBase64 (\<lambda>x. h_ValueBase64_update (\<lambda>_. x)))]"

definition zero_RequestBody :: RequestBody where
  "zero_RequestBody = \<lparr>b_Mode = [], b_DataBase64 = [], b_ReceiptID = []\<rparr>"

definition dec_RequestBody :: "RequestBody decoder" where
  "dec_RequestBody = dec_struct
     [(''mode'', dec_field dec_string b_Mode (\<lambda>x. b_Mode_update (\<lambda>_. x))),
      (''data_base64'', dec_field dec_string b_DataBase64 (\<lambda>x. b_DataBase64_update (\<lambda>_. x))),
      (''receipt_id'', dec_field dec_string b_ReceiptID (\<lambda>x. b_ReceiptID_update (\<lambda>_. x)))]"

definition zero_RoutingHints :: RoutingHints where
  "zero_RoutingHints = \<lparr>ro_Tags = [], ro_Country = [], ro_Region = [], ro_IPType = [], ro_StickySessionID = []\<rparr>"

definition dec_RoutingHints :: "RoutingHints decoder" where
  "dec_RoutingHints = dec_struct
     [(''tags'', dec_field (dec_list dec_string []) ro_Tags (\<lambda>x. ro_Tags_update (\<lambda>_. x))),
      (''country'', dec_field dec_string ro_Country (\<lambda>x. ro_Country_update (\<lambda>_. x))),
      (''region'', dec_field dec_string ro_Region (\<lambda>x. ro_Region_update (\<lambda>_. x))),
      (''ip_type'', dec_field dec_string ro_IPType (\<lambda>x. ro_IPType_update (\<lambda>_. x))),
      (''sticky_session_id'', dec_field dec_string ro_StickySessionID (\<lambda>x. ro_StickySessionID_update (\<lambda>_. x)))]"

definition zero_Request :: Request where
  "zero_Request =
     \<lparr>rq_Method = [], rq_URL = [], rq_Headers = [], rq_Body = None, rq_Routing = None,
      rq_FingerprintProfile = [], rq_TimeoutMs = 0, rq_Replayable = False, rq_ReplayableOverride = None,
      rq_ResponseBodyMode = []\<rparr>"

definition dec_Request :: "Request decoder" where
  "dec_Request = dec_struct
     [(''method'', dec_field dec_string rq_Method (\<lambda>x. rq_Method_update (\<lambda>_. x))),
      (''url'', dec_field dec_string rq_URL (\<lambda>x. rq_URL_update (\<lambda>_. x))),
      (''headers'', dec_field (dec_list dec_Header zero_Header) rq_Headers (\<lambda>x. rq_Headers_update (\<lambda>_. x))),
      (''body'', dec_field (dec_ptr dec_RequestBody zero_RequestBody) rq_Body (\<lambda>x. rq_Body_update (\<lambda>_. x))),
      (''routing'', dec_field (dec_ptr dec_RoutingHints zero_RoutingHints) rq_Routing (\<lambda>x. rq_Routing_update (\<lambda>_. x))),
      (''fingerprint_profile'', dec_field dec_string rq_FingerprintProfile (\<lambda>x. rq_FingerprintProfile_update (\<lambda>_. x))),
      (''timeout_ms'', dec_field dec_u64 rq_TimeoutMs (\<lambda>x. rq_TimeoutMs_update (\<lambda>_. x))),
      (''replayable'', dec_field dec_bool rq_Replayable (\<lambda>x. rq_Replayable_update (\<lambda>_. x))),
      (''response_body_mode'', dec_field dec_string rq_ResponseBodyMode (\<lambda>x. rq_ResponseBodyMode_update (\<lambda>_. x)))]"

section \<open>Responses, receipts and errors\<close>

record Timing =
  ti_RoutingMs :: i64
  ti_AssignmentMs :: i64
  ti_EgressMs :: i64
  ti_TotalMs :: i64

record ResponseBody =
  rb_Mode :: string
  rb_DataBase64 :: string
  rb_Truncated :: bool
  rb_ReceiptID :: string
  rb_SizeBytes :: u64
  rb_SHA256Hex :: string

record Response =
  rs_RequestID :: string
  rs_Status :: i64
  rs_Headers :: "Header list"
  rs_Body :: ResponseBody
  rs_Timing :: Timing

record Receipt =
  rc_ReceiptID :: string
  rc_Direction :: string
  rc_State :: string
  rc_SizeBytes :: i64
  rc_SHA256Hex :: string
  rc_StatusURL :: string
  rc_PartUploadTemplate :: string
  rc_CompleteURL :: string
  rc_DownloadURL :: string

record ErrorResponse =
  er_Category :: string
  er_Code :: string
  er_Message :: string
  er_Retryable :: bool
  er_RequestID :: string
  er_TimeoutType :: string
  er_RetryAfterMs :: i64
  er_Details :: "string \<rightharpoonup> string"

record APIError =
  ae_HTTPStatus :: int
  ae_Response :: ErrorResponse

text \<open>The text of an error, \<open>APIError.Error\<close>.\<close>

definition APIError_Error :: "APIError \<Rightarrow> string" where
  "APIError_Error e =
     (if er_Message (ae_Response e) = [] then er_Code (ae_Response e) else er_Message (ae_Response e))"

definition zero_Timing :: Timing where
  "zero_Timing = \<lparr>ti_RoutingMs = 0, ti_AssignmentMs = 0, ti_EgressMs = 0, ti_TotalMs = 0\<rparr>"

definition dec_Timing :: "Timing decoder" where
  "dec_Timing = dec_struct
     [(''routing_ms'', dec_field dec_i64 ti_RoutingMs (\<lambda>x. ti_RoutingMs_update (\<lambda>_. x))),
      (''assignment_ms'', dec_field dec_i64 ti_AssignmentMs (\<lambda>x. ti_AssignmentMs_update (\<lambda>_. x))),
      (''egress_ms'', dec_field dec_i64 ti_EgressMs (\<lambda>x. ti_EgressMs_update (\<lambda>_. x))),
      (''total_ms'', dec_field dec_i64 ti_TotalMs (\<lambda>x. ti_TotalMs_update (\<lambda>_. x)))]"

definition zero_ResponseBody :: ResponseBody where
  "zero_ResponseBody =
     \<lparr>rb_Mode = [], rb_DataBase64 = [], rb_Truncated = False, rb_ReceiptID = [], rb_SizeBytes = 0, rb_SHA256Hex = []\<rparr>"

definition dec_ResponseBody :: "ResponseBody decoder" where
  "dec_ResponseBody = dec_struct
     [(''mode'', dec_field dec_string rb_Mode (\<lambda>x. rb_Mode_update (\<lambda>_. x))),
      (''data_base64'', dec_field dec_string rb_DataBase64 (\<lambda>x. rb_DataBase64_update (\<lambda>_. x))),
      (''truncated'', dec_field dec_bool rb_Truncated (\<lambda>x. rb_Truncated_update (\<lambda>_. x))),
      (''receipt_id'', dec_field dec_string rb_ReceiptID (\<lambda>x. rb_ReceiptID_update (\<lambda>_. x))),
      (''size_bytes'', dec_field dec_u64 rb_SizeBytes (\<lambda>x. rb_SizeBytes_update (\<lambda>_. x))),
      (''sha256_hex'', dec_field dec_string rb_SHA256Hex (\<lambda>x. rb_SHA256Hex_update (\<lambda>_. x)))]"

definition zero_Response :: Response where
  "zero_Response =
     \<lparr>rs_RequestID = [], rs_Status = 0, rs_Headers = [], rs_Body = zero_ResponseBody, rs_Timing = zero_Timing\<rparr>"

definition dec_Response :: "Response decoder" where
  "dec_Response = dec_struct
     [(''request_id'', dec_field dec_string rs_RequestID (\<lambda>x. rs_RequestID_update (\<lambda>_. x))),
      (''status'', dec_field dec_i64 rs_Status (\<lambda>x. rs_Status_update (\<lambda>_. x))),
      (''headers'', dec_field (dec_list dec_Header zero_Header) rs_Headers (\<lambda>x. rs_Headers_update (\<lambda>_. x))),
      (''body'', dec_field dec_ResponseBody rs_Body (\<lambda>x. rs_Body_update (\<lambda>_. x))),
      (''timing'', dec_field dec_Timing rs_Timing (\<lambda>x. rs_Timing_update (\<lambda>_. x)))]"

definition zero_Receipt :: Receipt where
  "zero_Receipt =
     \<lparr>rc_ReceiptID = [], rc_Direction = [], rc_State = [], rc_SizeBytes = 0, rc_SHA256Hex = [], rc_StatusURL = [],
      rc_PartUploadTemplate = [], rc_CompleteURL = [], rc_DownloadURL = []\<rparr>"

definition dec_Receipt :: "Receipt decoder" where
  "dec_Receipt = dec_struct
     [(''receipt_id'', dec_field dec_string rc_ReceiptID (\<lambda>x. rc_ReceiptID_update (\<lambda>_. x))),
      (''direction'', dec_field dec_string rc_Direction (\<lambda>x. rc_Direction_update (\<lambda>_. x))),
      (''state'', dec_field dec_string rc_State (\<lambda>x. rc_State_update (\<lambda>_. x))),
      (''size_bytes'', dec_field dec_i64 rc_SizeBytes (\<lambda>x. rc_SizeBytes_update (\<lambda>_. x))),
      (''sha256_hex'', dec_field dec_string rc_SHA256Hex (\<lambda>x. rc_SHA256Hex_update (\<lambda>_. x))),
      (''status_url'', dec_field dec_string rc_StatusURL (\<lambda>x. rc_StatusURL_update (\<lambda>_. x))),
      (''part_upload_template'', dec_field dec_string rc_PartUploadTemplate (\<lambda>x. rc_PartUploadTemplate_update (\<lambda>_. x))),
      (''complete_url'', dec_field dec_string rc_CompleteURL (\<lambda>x. rc_CompleteURL_update (\<lambda>_. x))),
      (''download_url'', dec_field dec_string rc_DownloadURL (\<lambda>x. rc_DownloadURL_update (\<lambda>_. x)))]"

definition zero_ErrorResponse :: ErrorResponse where
  "zero_ErrorResponse =
     \<lparr>er_Category = [], er_Code = [], er_Message = [], er_Retryable = False, er_RequestID = [],
      er_TimeoutType = [], er_RetryAfterMs = 0, er_Details = Map.empty\<rparr>"

definition dec_ErrorResponse :: "ErrorResponse decoder" where
  "dec_ErrorResponse = dec_struct
     [(''category'', dec_field dec_string er_Category (\<lambda>x. er_Category_update (\<lambda>_. x))),
      (''code'', dec_field dec_string er_Code (\<lambda>x. er_Code_update (\<lambda>_. x))),
      (''message'', dec_field dec_string er_Message (\<lambda>x. er_Message_update (\<lambda>_. x))),
      (''retryable'', dec_field dec_bool er_Retryable (\<lambda>x. er_Retryable_update (\<lambda>_. x))),
      (''request_id'', dec_field dec_string er_RequestID (\<lambda>x. er_RequestID_update (\<lambda>_. x))),
      (''timeout_type'', dec_field dec_string er_TimeoutType (\<lambda>x. er_TimeoutType_update (\<lambda>_. x))),
      (''retry_after_ms'', dec_field dec_i64 er_RetryAfterMs (\<lambda>x. er_RetryAfterMs_update (\<lambda>_. x))),
      (''details'', dec_field dec_map er_Details (\<lambda>x. er_Details_update (\<lambda>_. x)))]"

section \<open>Round trips\<close>

lemma dec_fields_append:
  "dec_fields fs (xs @ ys) v =
     (case dec_fields fs xs v of (ok, w) \<Rightarrow> (case dec_fields fs ys w of (ok', z) \<Rightarrow> (ok \<and> ok', z)))"
  by (induction xs arbitrary: v) (auto split: option.splits prod.splits)

text \<open>A group of members that fits its type is stored, and the reading goes on with the result.\<close>

lemma dec_fields_omitempty:
  assumes "find_field fs k = Some d" and "fst (d j v)" and "e \<Longrightarrow> snd (d j v) = v"
  shows "dec_fields fs (omitempty e k j @ ms) v = dec_fields fs ms (snd (d j v))"
  using assms by (cases "d j v") (auto simp: omitempty_def split: prod.splits)

lemma dec_fields_string:
  assumes "find_field fs k = Some d" and "fst (d (JString s) v)" and "s = [] \<Longrightarrow> snd (d (JString s) v) = v"
  shows "dec_fields fs (string_field k s @ ms) v = dec_fields fs ms (snd (d (JString s) v))"
  unfolding string_field_def using assms by (rule dec_fields_omitempty)

lemma dec_fields_pointer:
  assumes "find_field fs k = Some (dec_field d get upd)" and "\<And>x. d (f x) None = (True, Some x)"
    and "get v = None" and "upd None v = v"
  shows "dec_fields fs (pointer_field k f p @ ms) v = dec_fields fs ms (upd p v)"
  using assms by (cases p) (auto simp: pointer_field_def dec_field_def split: prod.splits)

lemmas dec_fields_groups = dec_fields_omitempty dec_fields_string dec_fields_pointer
  dec_fields_omitempty [where ms = "[]", simplified]
  dec_fields_string [where ms = "[]", simplified]

lemma dec_string_JString [simp]: "dec_string (JString s) v = (True, s)"
  by (simp add: dec_string_def)

lemma dec_bool_JBool [simp]: "dec_bool (JBool b) v = (True, b)"
  by (simp add: dec_bool_def)

lemma parse_nat_show_int: "0 \<le> i \<Longrightarrow> parse_nat (show_int i) = Some (nat i)"
  by (simp add: show_int_def parse_nat_show)

lemma dec_u64_show [simp]: "dec_u64 (JNumber (show_int (uint w))) v = (True, w)"
  using unat_less_64 [of w] by (simp add: dec_u64_def parse_nat_show_int)

lemma dec_u64_show_0 [simp]: "dec_u64 (JNumber (show_int 0)) v = (True, 0)"
  using dec_u64_show [of 0 v] by simp

lemma dec_i64_show [simp]: "dec_i64 (JNumber (show_int (sint w))) v = (True, w)"
  using sint_greater_eq [of w] sint_lt [of w] by (simp add: dec_i64_def parse_int_show)

lemma dec_elements_map: "(\<And>x y. x \<in> set xs \<Longrightarrow> d (f x) y = (True, x)) \<Longrightarrow> dec_elements d zero (map f xs) [] = (True, xs)"
  by (induction xs) auto

lemma dec_list_map: "(\<And>x y. d (f x) y = (True, x)) \<Longrightarrow> dec_list d zero (JArray (map f xs)) [] = (True, xs)"
  by (simp add: dec_list_def dec_elements_map)

lemma dec_list_Nil [simp]: "dec_list d zero (JArray []) v = (True, [])"
  by (simp add: dec_list_def)

lemmas read_defs = dec_struct_def dec_field_def case_prod_beta

lemma read_Header: "dec_Header (Header_json h) y = (True, h)"
  by (cases h; cases y) (simp add: dec_Header_def Header_json_def find_field_def read_defs)

lemma read_RequestBody: "dec_RequestBody (RequestBody_json b) zero_RequestBody = (True, b)"
  by (cases b) (simp add: dec_RequestBody_def RequestBody_json_def zero_RequestBody_def read_defs find_field_def dec_fields_groups)

lemma read_RoutingHints: "dec_RoutingHints (RoutingHints_json h) zero_RoutingHints = (True, h)"
  by (cases h) (simp add: dec_RoutingHints_def RoutingHints_json_def zero_RoutingHints_def read_defs find_field_def
      dec_list_map dec_fields_groups)

lemma dec_ptr_nil: "j \<noteq> JNull \<Longrightarrow> dec_ptr d zero j None = (fst (d j zero), Some (snd (d j zero)))"
  by (simp add: dec_ptr_def case_prod_beta)

lemma messages_not_null: "RequestBody_json b \<noteq> JNull" "RoutingHints_json h \<noteq> JNull"
  by (simp_all add: RequestBody_json_def RoutingHints_json_def)

lemma read_Request:
  "dec_Request (Request_json r) zero_Request =
     (True, r\<lparr>rq_Replayable := effectiveReplayable r, rq_ReplayableOverride := None\<rparr>)"
  by (cases r) (simp add: dec_Request_def Request_json_def zero_Request_def read_defs find_field_def
      dec_list_map dec_fields_groups dec_ptr_nil messages_not_null read_Header read_RequestBody read_RoutingHints)

text \<open>The strings of a request are valid UTF-8.\<close>

definition valid_routing :: "RoutingHints \<Rightarrow> bool" where
  "valid_routing h \<longleftrightarrow> list_all valid_utf8 (ro_Tags h) \<and> valid_utf8 (ro_Country h) \<and> valid_utf8 (ro_Region h)
     \<and> valid_utf8 (ro_IPType h) \<and> valid_utf8 (ro_StickySessionID h)"

definition valid_request :: "Request \<Rightarrow> bool" where
  "valid_request r \<longleftrightarrow>
     valid_utf8 (rq_Method r) \<and> valid_utf8 (rq_URL r)
     \<and> list_all (\<lambda>h. valid_utf8 (h_Name h) \<and> valid_utf8 (h_ValueBase64 h)) (rq_Headers r)
     \<and> (case rq_Body r of None \<Rightarrow> True
         | Some b \<Rightarrow> valid_utf8 (b_Mode b) \<and> valid_utf8 (b_DataBase64 b) \<and> valid_utf8 (b_ReceiptID b))
     \<and> (case rq_Routing r of None \<Rightarrow> True | Some h \<Rightarrow> valid_routing h)
     \<and> valid_utf8 (rq_FingerprintProfile r) \<and> valid_utf8 (rq_ResponseBodyMode r)"

definition fits_members :: "nat \<Rightarrow> (string \<times> json) list \<Rightarrow> bool" where
  "fits_members d ms \<longleftrightarrow> (\<forall>m\<in>set ms. valid_utf8 (fst m) \<and> fits d (snd m))"

lemma fits_members_simps [simp]:
  "fits_members d []"
  "fits_members d ((k, j) # ms) \<longleftrightarrow> valid_utf8 k \<and> fits d j \<and> fits_members d ms"
  "fits_members d (xs @ ys) \<longleftrightarrow> fits_members d xs \<and> fits_members d ys"
  "fits_members d (omitempty e k j) \<longleftrightarrow> e \<or> valid_utf8 k \<and> fits d j"
  "fits_members d (string_field k s) \<longleftrightarrow> s = [] \<or> valid_utf8 k \<and> valid_utf8 s"
  "fits_members d (pointer_field k f p) \<longleftrightarrow> (case p of None \<Rightarrow> True | Some x \<Rightarrow> valid_utf8 k \<and> fits d (f x))"
  by (auto simp: fits_members_def omitempty_def string_field_def pointer_field_def split: option.splits)

lemma fits_object: "fits d (JObject ms) \<longleftrightarrow> 0 < d \<and> fits_members (d - 1) ms"
  by (simp add: fits_members_def)

lemma fits_show_int [simp]: "fits d (JNumber (show_int i))"
  by (simp add: parse_int_show)

lemma fits_Request:
  assumes "valid_request r" and "3 \<le> d"
  shows "fits d (Request_json r)"
  using assms unfolding Request_json_def
  by (cases d) (auto simp: fits_object valid_utf8_ascii valid_request_def valid_routing_def Header_json_def
      RequestBody_json_def RoutingHints_json_def list_all_iff parse_int_show simp del: fits.simps(6) split: option.splits)

text \<open>Requests and their parts keep the contract of messages; a request is received with its replayability resolved.\<close>

definition resolved :: "Request \<Rightarrow> Request" where
  "resolved r = r\<lparr>rq_Replayable := effectiveReplayable r, rq_ReplayableOverride := None\<rparr>"

lemma fits_RoutingHints: "valid_routing h \<Longrightarrow> 2 \<le> d \<Longrightarrow> fits d (RoutingHints_json h)"
  unfolding RoutingHints_json_def
  by (cases d) (auto simp: fits_object valid_utf8_ascii valid_routing_def list_all_iff simp del: fits.simps(6))

interpretation routing_message: json_message RoutingHints_json dec_RoutingHints zero_RoutingHints valid_routing "\<lambda>h. h"
  by unfold_locales (simp_all add: fits_RoutingHints read_RoutingHints maxNestingDepth_def)

interpretation request_message: json_message Request_json dec_Request zero_Request valid_request resolved
  by unfold_locales (simp_all add: fits_Request read_Request resolved_def maxNestingDepth_def)

lemma read_back_Request:
  "valid_request r \<Longrightarrow> json_Unmarshal dec_Request (MarshalJSON r) zero_Request = (None, resolved r)"
  unfolding MarshalJSON_def by (rule request_message.read_back)

end
