(* ===== verification/Client.thy ===== *)
theory Client
  imports Client_Types
begin

text \<open>
  The client of Straw's public API (\<open>client.go\<close>). The HTTP client is a function from requests to
  responses; a call returns Go's pair of a value that may be nil and an error that may be nil, or
  panics when there is no HTTP client, together with what it did: the requests it sent and the response
  bodies it closed. The check of \<open>http.NewRequestWithContext\<close> (URL and context) is a parameter.
\<close>

section \<open>HTTP messages\<close>

record HttpRequest =
  hq_Method :: string
  hq_URL :: string
  hq_Header :: "(string \<times> string) list"
  hq_Body :: "string option"
  hq_ContentLength :: i64

text \<open>The body of a response: the bytes it holds, or the error reading it ends with.\<close>

record HttpResponse =
  hs_StatusCode :: int
  hs_Body :: "string + string"

type_synonym http_client = "HttpRequest \<Rightarrow> string + HttpResponse"

record http_env =
  he_NewRequest :: "string \<Rightarrow> string \<Rightarrow> string option"
  he_DefaultClient :: http_client

text \<open>\<open>Header.Set\<close> replaces the values of the canonical key.\<close>

fun canonical_key :: "bool \<Rightarrow> string \<Rightarrow> string" where
  "canonical_key up [] = []"
| "canonical_key up (c # s) =
     (if up \<and> in_range 97 122 (code c) then char_of (code c - 32)
      else if \<not> up \<and> in_range 65 90 (code c) then char_of (code c + 32) else c)
     # canonical_key (c = CHR ''-'') s"

definition setHeader :: "string \<Rightarrow> string \<Rightarrow> HttpRequest \<Rightarrow> HttpRequest" where
  "setHeader k v req =
     req\<lparr>hq_Header := (canonical_key True k, v) # filter (\<lambda>h. fst h \<noteq> canonical_key True k) (hq_Header req)\<rparr>"

definition newRequest :: "string \<Rightarrow> string \<Rightarrow> string option \<Rightarrow> HttpRequest" where
  "newRequest method url body =
     \<lparr>hq_Method = method, hq_URL = url, hq_Header = [], hq_Body = body,
      hq_ContentLength = (case body of None \<Rightarrow> 0 | Some b \<Rightarrow> ulen b)\<rparr>"

section \<open>The client\<close>

definition requestsPath :: string where
  "requestsPath = ''/api/v1/requests''"

definition receiptsPath :: string where
  "receiptsPath = ''/api/v1/receipts''"

record Client =
  cl_baseURL :: string
  cl_apiKey :: string
  cl_httpClient :: "http_client option"

type_synonym client_option = "Client \<Rightarrow> Client"

definition NewClient :: "http_env \<Rightarrow> string \<Rightarrow> string \<Rightarrow> client_option list \<Rightarrow> Client" where
  "NewClient env baseURL apiKey opts =
     (let client = foldl (\<lambda>c opt. opt c)
            \<lparr>cl_baseURL = TrimRight baseURL (CHR ''/''), cl_apiKey = apiKey,
             cl_httpClient = Some (he_DefaultClient env)\<rparr> opts
      in if cl_httpClient client = None then client\<lparr>cl_httpClient := Some (he_DefaultClient env)\<rparr> else client)"

definition WithHTTPClient :: "http_client option \<Rightarrow> client_option" where
  "WithHTTPClient h c = c\<lparr>cl_httpClient := h\<rparr>"

definition authorize :: "Client \<Rightarrow> HttpRequest \<Rightarrow> HttpRequest" where
  "authorize c req =
     (if cl_apiKey c \<noteq> [] then setHeader ''Authorization'' (''Bearer '' @ cl_apiKey c) req else req)"

section \<open>Results\<close>

datatype cause = Cause string | JSONError json_error

datatype client_error = Wrapped string cause | APIErr APIError

datatype 'a outcome = Returned "'a option" "client_error option" | Panicked

datatype http_action = Sent HttpRequest | BodyClosed

type_synonym 'a call = "'a outcome \<times> http_action list"

text \<open>
  \<open>decodeAPIResponse\<close>: the decoder is absent where the code passes a nil \<open>out\<close>. The result is the error
  with what \<open>out\<close> holds.
\<close>

definition decodeAPIResponse :: "HttpResponse \<Rightarrow> 'a decoder option \<Rightarrow> 'a \<Rightarrow> client_error option \<times> 'a" where
  "decodeAPIResponse resp out v =
     (case hs_Body resp of
        Inl err \<Rightarrow> (Some (Wrapped ''read API response'' (Cause err)), v)
      | Inr raw \<Rightarrow>
          if hs_StatusCode resp < 200 \<or> 300 \<le> hs_StatusCode resp
          then (Some (APIErr \<lparr>ae_HTTPStatus = hs_StatusCode resp,
                             ae_Response = snd (json_Unmarshal dec_ErrorResponse raw zero_ErrorResponse)\<rparr>), v)
          else (case out of
                  None \<Rightarrow> (None, v)
                | Some d \<Rightarrow>
                    if raw = [] then (None, v)
                    else (case json_Unmarshal d raw v of
                            (None, w) \<Rightarrow> (None, w)
                          | (Some e, w) \<Rightarrow> (Some (Wrapped ''decode API response'' (JSONError e)), w))))"

text \<open>What the callers make of it: the value when there is no error.\<close>

definition decoded :: "client_error option \<times> 'a \<Rightarrow> 'a outcome" where
  "decoded r = (case r of (None, v) \<Rightarrow> Returned (Some v) None | (Some e, _) \<Rightarrow> Returned None (Some e))"

definition doJSON ::
  "http_env \<Rightarrow> Client \<Rightarrow> string \<Rightarrow> string \<Rightarrow> string option \<Rightarrow> string \<Rightarrow> 'a decoder \<Rightarrow> 'a \<Rightarrow> 'a call" where
  "doJSON env c method path body contentType out v =
     (case he_NewRequest env method (cl_baseURL c @ path) of
        Some err \<Rightarrow> (Returned None (Some (Wrapped ''build API request'' (Cause err))), [])
      | None \<Rightarrow>
          (let req0 = newRequest method (cl_baseURL c @ path) body;
               req1 = (if contentType \<noteq> [] then setHeader ''Content-Type'' contentType req0 else req0);
               req = authorize c req1
           in case cl_httpClient c of
                None \<Rightarrow> (Panicked, [])
              | Some send \<Rightarrow>
                  (case send req of
                     Inl err \<Rightarrow> (Returned None (Some (Wrapped ''send API request'' (Cause err))), [Sent req])
                   | Inr resp \<Rightarrow> (decoded (decodeAPIResponse resp (Some out) v), [Sent req, BodyClosed]))))"

section \<open>Operations\<close>

text \<open>Marshalling a request or an input never fails: their types hold nothing JSON cannot express.\<close>

definition Do :: "http_env \<Rightarrow> Client \<Rightarrow> Request \<Rightarrow> Response call" where
  "Do env c request =
     doJSON env c ''POST'' requestsPath (Some (MarshalJSON request)) ''application/json'' dec_Response zero_Response"

definition CreateReceipt :: "http_env \<Rightarrow> Client \<Rightarrow> CreateReceiptInput \<Rightarrow> Receipt call" where
  "CreateReceipt env c input =
     doJSON env c ''POST'' receiptsPath (Some (print_json (CreateReceiptInput_json input))) ''application/json''
       dec_Receipt zero_Receipt"

definition partPath :: "string \<Rightarrow> int \<Rightarrow> string" where
  "partPath receiptID part = receiptsPath @ ''/'' @ receiptID @ ''/parts/'' @ show_int part"

definition UploadReceiptPart ::
  "http_env \<Rightarrow> Client \<Rightarrow> string \<Rightarrow> int \<Rightarrow> string option \<Rightarrow> i64 \<Rightarrow> string \<Rightarrow> Receipt call" where
  "UploadReceiptPart env c receiptID part body sz checksum =
     (let url = cl_baseURL c @ partPath receiptID part in
      case he_NewRequest env ''PUT'' url of
        Some err \<Rightarrow> (Returned None (Some (Wrapped ''build receipt part request'' (Cause err))), [])
      | None \<Rightarrow>
          (let req0 = setHeader ''Content-Type'' ''application/octet-stream''
                 ((newRequest ''PUT'' url body)\<lparr>hq_ContentLength := sz\<rparr>);
               req1 = (if checksum \<noteq> [] then setHeader ''X-Straw-Part-SHA256'' checksum req0 else req0);
               req = authorize c req1
           in case cl_httpClient c of
                None \<Rightarrow> (Panicked, [])
              | Some send \<Rightarrow>
                  (case send req of
                     Inl err \<Rightarrow> (Returned None (Some (Wrapped ''upload receipt part'' (Cause err))), [Sent req])
                   | Inr resp \<Rightarrow>
                       (decoded (decodeAPIResponse resp (Some dec_Receipt) zero_Receipt), [Sent req, BodyClosed]))))"

definition CompleteReceipt :: "http_env \<Rightarrow> Client \<Rightarrow> string \<Rightarrow> Receipt call" where
  "CompleteReceipt env c receiptID =
     doJSON env c ''POST'' (receiptsPath @ ''/'' @ receiptID @ ''/complete'') None ''application/json''
       dec_Receipt zero_Receipt"

definition GetReceipt :: "http_env \<Rightarrow> Client \<Rightarrow> string \<Rightarrow> Receipt call" where
  "GetReceipt env c receiptID =
     doJSON env c ''GET'' (receiptsPath @ ''/'' @ receiptID) None [] dec_Receipt zero_Receipt"

text \<open>A download hands the open body of a 200 response to the caller.\<close>

definition DownloadReceipt :: "http_env \<Rightarrow> Client \<Rightarrow> string \<Rightarrow> (string + string) call" where
  "DownloadReceipt env c receiptID =
     (let url = cl_baseURL c @ receiptsPath @ ''/'' @ receiptID @ ''/content'' in
      case he_NewRequest env ''GET'' url of
        Some err \<Rightarrow> (Returned None (Some (Wrapped ''build receipt download request'' (Cause err))), [])
      | None \<Rightarrow>
          (let req = authorize c (newRequest ''GET'' url None) in
           case cl_httpClient c of
             None \<Rightarrow> (Panicked, [])
           | Some send \<Rightarrow>
               (case send req of
                  Inl err \<Rightarrow> (Returned None (Some (Wrapped ''download receipt'' (Cause err))), [Sent req])
                | Inr resp \<Rightarrow>
                    if hs_StatusCode resp \<noteq> 200
                    then (Returned None (fst (decodeAPIResponse resp (None :: unit decoder option) ())), [Sent req, BodyClosed])
                    else (Returned (Some (hs_Body resp)) None, [Sent req]))))"

end
