(* ===== verification/Client_Safety.thy ===== *)
theory Client_Safety
  imports Client
begin

text \<open>
  What the public API client promises: which requests it sends, with which credentials, what becomes
  of the responses, and which errors the caller sees. The six operations are cases of one datatype, so
  that a statement speaks of all of them.
\<close>

section \<open>The six operations\<close>

datatype api_call =
  CallDo Request
  | CallCreate CreateReceiptInput
  | CallUpload string int "string option" i64 string
  | CallComplete string
  | CallGet string
  | CallDownload string

fun call_trace :: "http_env \<Rightarrow> Client \<Rightarrow> api_call \<Rightarrow> http_action list" where
  "call_trace env c (CallDo r) = snd (Do env c r)"
| "call_trace env c (CallCreate i) = snd (CreateReceipt env c i)"
| "call_trace env c (CallUpload rid n body sz ck) = snd (UploadReceiptPart env c rid n body sz ck)"
| "call_trace env c (CallComplete rid) = snd (CompleteReceipt env c rid)"
| "call_trace env c (CallGet rid) = snd (GetReceipt env c rid)"
| "call_trace env c (CallDownload rid) = snd (DownloadReceipt env c rid)"

text \<open>The error a call returns, and whether it panics.\<close>

fun outcome_error :: "'a outcome \<Rightarrow> client_error option" where
  "outcome_error (Returned v e) = e"
| "outcome_error Panicked = None"

fun call_failure :: "http_env \<Rightarrow> Client \<Rightarrow> api_call \<Rightarrow> client_error option" where
  "call_failure env c (CallDo r) = outcome_error (fst (Do env c r))"
| "call_failure env c (CallCreate i) = outcome_error (fst (CreateReceipt env c i))"
| "call_failure env c (CallUpload rid n body sz ck) = outcome_error (fst (UploadReceiptPart env c rid n body sz ck))"
| "call_failure env c (CallComplete rid) = outcome_error (fst (CompleteReceipt env c rid))"
| "call_failure env c (CallGet rid) = outcome_error (fst (GetReceipt env c rid))"
| "call_failure env c (CallDownload rid) = outcome_error (fst (DownloadReceipt env c rid))"

fun call_panics :: "http_env \<Rightarrow> Client \<Rightarrow> api_call \<Rightarrow> bool" where
  "call_panics env c (CallDo r) \<longleftrightarrow> fst (Do env c r) = Panicked"
| "call_panics env c (CallCreate i) \<longleftrightarrow> fst (CreateReceipt env c i) = Panicked"
| "call_panics env c (CallUpload rid n body sz ck) \<longleftrightarrow> fst (UploadReceiptPart env c rid n body sz ck) = Panicked"
| "call_panics env c (CallComplete rid) \<longleftrightarrow> fst (CompleteReceipt env c rid) = Panicked"
| "call_panics env c (CallGet rid) \<longleftrightarrow> fst (GetReceipt env c rid) = Panicked"
| "call_panics env c (CallDownload rid) \<longleftrightarrow> fst (DownloadReceipt env c rid) = Panicked"

text \<open>The documented endpoints.\<close>

fun call_endpoint :: "api_call \<Rightarrow> string \<times> string" where
  "call_endpoint (CallDo r) = (''POST'', ''/api/v1/requests'')"
| "call_endpoint (CallCreate i) = (''POST'', ''/api/v1/receipts'')"
| "call_endpoint (CallUpload rid n body sz ck) =
     (''PUT'', ''/api/v1/receipts/'' @ rid @ ''/parts/'' @ show_int n)"
| "call_endpoint (CallComplete rid) = (''POST'', ''/api/v1/receipts/'' @ rid @ ''/complete'')"
| "call_endpoint (CallGet rid) = (''GET'', ''/api/v1/receipts/'' @ rid)"
| "call_endpoint (CallDownload rid) = (''GET'', ''/api/v1/receipts/'' @ rid @ ''/content'')"

definition sent_requests :: "http_action list \<Rightarrow> HttpRequest list" where
  "sent_requests as = concat (map (\<lambda>a. case a of Sent req \<Rightarrow> [req] | BodyClosed \<Rightarrow> []) as)"

lemma sent_requests_simps [simp]:
  "sent_requests [] = []" "sent_requests (Sent req # as) = req # sent_requests as"
  "sent_requests (BodyClosed # as) = sent_requests as"
  by (simp_all add: sent_requests_def)

section \<open>Clients\<close>

lemma foldl_WithHTTPClient:
  "cl_baseURL (foldl (\<lambda>c opt. opt c) c (map WithHTTPClient hs)) = cl_baseURL c
   \<and> cl_apiKey (foldl (\<lambda>c opt. opt c) c (map WithHTTPClient hs)) = cl_apiKey c"
  by (induction hs arbitrary: c) (simp_all add: WithHTTPClient_def)

lemma NewClient_fields:
  "cl_baseURL (NewClient env base key (map WithHTTPClient hs)) = TrimRight base (CHR ''/'')"
  "cl_apiKey (NewClient env base key (map WithHTTPClient hs)) = key"
  by (simp_all add: NewClient_def Let_def foldl_WithHTTPClient)

lemma NewClient_has_client: "\<exists>h. cl_httpClient (NewClient env base key opts) = Some h"
  by (simp add: NewClient_def Let_def)

section \<open>Requests sent\<close>

definition header_of :: "string \<Rightarrow> HttpRequest \<Rightarrow> string option" where
  "header_of k req = map_of (hq_Header req) k"

lemma header_of_set [simp]:
  "header_of k (setHeader k' v req) = (if k = canonical_key True k' then Some v else header_of k req)"
proof -
  have "map_of (filter (\<lambda>h. fst h \<noteq> x) hs) k = map_of hs k" if "k \<noteq> x" for x and hs :: "(string \<times> string) list"
    using that by (induction hs) auto
  then show ?thesis by (simp add: header_of_def setHeader_def)
qed

lemma setHeader_same [simp]:
  "hq_Method (setHeader k v req) = hq_Method req" "hq_URL (setHeader k v req) = hq_URL req"
  "hq_Body (setHeader k v req) = hq_Body req" "hq_ContentLength (setHeader k v req) = hq_ContentLength req"
  by (simp_all add: setHeader_def)

lemma newRequest_fields [simp]:
  "hq_Method (newRequest m u b) = m" "hq_URL (newRequest m u b) = u" "hq_Body (newRequest m u b) = b"
  "header_of k (newRequest m u b) = None"
  by (simp_all add: newRequest_def header_of_def)

lemma header_of_length [simp]: "header_of k (req\<lparr>hq_ContentLength := n\<rparr>) = header_of k req"
  by (simp add: header_of_def)

lemma canonical_keys [simp]:
  "canonical_key True ''Authorization'' = ''Authorization''"
  "canonical_key True ''Content-Type'' = ''Content-Type''"
  "canonical_key True ''X-Straw-Part-SHA256'' = ''X-Straw-Part-Sha256''"
  by code_simp+

declare canonical_key.simps [simp del]

lemma authorize_fields [simp]:
  "hq_Method (authorize c req) = hq_Method req" "hq_URL (authorize c req) = hq_URL req"
  "hq_Body (authorize c req) = hq_Body req" "hq_ContentLength (authorize c req) = hq_ContentLength req"
  by (simp_all add: authorize_def)

lemma authorize_header:
  "header_of k (authorize c req) =
     (if k = ''Authorization'' \<and> cl_apiKey c \<noteq> [] then Some (''Bearer '' @ cl_apiKey c) else header_of k req)"
  by (simp add: authorize_def)

lemma paths [simp]:
  "requestsPath = ''/api/v1/requests''" "receiptsPath = ''/api/v1/receipts''"
  by (simp_all add: requestsPath_def receiptsPath_def)

text \<open>The request of a call before it is authorized, and what a call does with it.\<close>

definition call_url :: "Client \<Rightarrow> api_call \<Rightarrow> string" where
  "call_url c call = cl_baseURL c @ snd (call_endpoint call)"

definition call_message :: "Client \<Rightarrow> api_call \<Rightarrow> HttpRequest" where
  "call_message c call =
     (let new = newRequest (fst (call_endpoint call)) (call_url c call);
          json_type = setHeader ''Content-Type'' ''application/json''
      in case call of
           CallDo r \<Rightarrow> json_type (new (Some (MarshalJSON r)))
         | CallCreate i \<Rightarrow> json_type (new (Some (print_json (CreateReceiptInput_json i))))
         | CallUpload rid n body sz ck \<Rightarrow>
             (let req = setHeader ''Content-Type'' ''application/octet-stream'' ((new body)\<lparr>hq_ContentLength := sz\<rparr>)
              in if ck = [] then req else setHeader ''X-Straw-Part-SHA256'' ck req)
         | CallComplete rid \<Rightarrow> json_type (new None)
         | CallGet rid \<Rightarrow> new None
         | CallDownload rid \<Rightarrow> new None)"

definition call_request :: "Client \<Rightarrow> api_call \<Rightarrow> HttpRequest" where
  "call_request c call = authorize c (call_message c call)"

definition hands_over :: "api_call \<Rightarrow> HttpResponse \<Rightarrow> bool" where
  "hands_over call resp \<longleftrightarrow> (case call of CallDownload rid \<Rightarrow> hs_StatusCode resp = 200 | _ \<Rightarrow> False)"

text \<open>The answer to a call: none when its request can not be built or there is no HTTP client.\<close>

definition call_answer :: "http_env \<Rightarrow> Client \<Rightarrow> api_call \<Rightarrow> (string + HttpResponse) option" where
  "call_answer env c call =
     (case he_NewRequest env (fst (call_endpoint call)) (call_url c call) of
        Some err \<Rightarrow> None
      | None \<Rightarrow> map_option (\<lambda>send. send (call_request c call)) (cl_httpClient c))"

lemmas call_defs = Do_def CreateReceipt_def UploadReceiptPart_def CompleteReceipt_def GetReceipt_def
  DownloadReceipt_def doJSON_def partPath_def call_message_def call_request_def call_url_def call_answer_def Let_def

lemma call_trace_eq:
  "call_trace env c call =
     (case call_answer env c call of
        None \<Rightarrow> []
      | Some (Inl err) \<Rightarrow> [Sent (call_request c call)]
      | Some (Inr resp) \<Rightarrow> Sent (call_request c call) # (if hands_over call resp then [] else [BodyClosed]))"
  by (cases call) (simp_all add: call_defs hands_over_def split: option.split sum.split)

lemma call_request_fields:
  "hq_Method (call_request c call) = fst (call_endpoint call)"
  "hq_URL (call_request c call) = call_url c call"
  "header_of ''Authorization'' (call_request c call)
     = (if cl_apiKey c = [] then None else Some (''Bearer '' @ cl_apiKey c))"
  by (cases call; simp add: call_request_def call_message_def Let_def authorize_header)+

text \<open>C37: Whatever the operation, the client sends at most one request; its method and URL are those of the
  endpoint below the base URL without its trailing slashes, and it carries the API key as a bearer token
  exactly when there is a key.\<close>
theorem client_requests_authorized:
  assumes "req \<in> set (sent_requests (call_trace env (NewClient env base key (map WithHTTPClient hs)) call))"
  shows "sent_requests (call_trace env (NewClient env base key (map WithHTTPClient hs)) call) = [req]
    \<and> hq_Method req = fst (call_endpoint call)
    \<and> hq_URL req = TrimRight base (CHR ''/'') @ snd (call_endpoint call)
    \<and> header_of ''Authorization'' req = (if key = [] then None else Some (''Bearer '' @ key))"
  using assms unfolding call_trace_eq
  by (auto simp: call_request_fields call_url_def NewClient_fields split: option.splits sum.splits if_splits)

text \<open>A sample client and requests, for the witnesses.\<close>

definition sample_http :: "int \<Rightarrow> string \<Rightarrow> http_env" where
  "sample_http status raw =
     \<lparr>he_NewRequest = (\<lambda>m u. None),
      he_DefaultClient = (\<lambda>req. Inr \<lparr>hs_StatusCode = status, hs_Body = Inr raw\<rparr>)\<rparr>"

definition sample_api_request :: Request where
  "sample_api_request = zero_Request\<lparr>rq_Method := ''GET'', rq_URL := ''https://example.com''\<rparr>"

lemma sample_answer:
  "call_answer (sample_http status raw) (NewClient (sample_http status raw) base key []) call =
     Some (Inr \<lparr>hs_StatusCode = status, hs_Body = Inr raw\<rparr>)"
  by (simp add: call_answer_def sample_http_def NewClient_def)

lemma sample_trace:
  "call_trace (sample_http status raw) (NewClient (sample_http status raw) base key []) call =
     Sent (call_request (NewClient (sample_http status raw) base key []) call)
       # (if hands_over call \<lparr>hs_StatusCode = status, hs_Body = Inr raw\<rparr> then [] else [BodyClosed])"
  by (simp add: call_trace_eq sample_answer)

lemma client_requests_authorized_witness:
  "\<exists>req. sent_requests (call_trace (sample_http 200 []) (NewClient (sample_http 200 []) ''http://straw/'' ''key'' (map WithHTTPClient []))
      (CallGet ''r1'')) = [req] \<and> hq_URL req = ''http://straw/api/v1/receipts/r1''
    \<and> header_of ''Authorization'' req = Some ''Bearer key''"
proof -
  let ?c = "NewClient (sample_http 200 []) ''http://straw/'' ''key'' (map WithHTTPClient [])"
  have "call_request ?c (CallGet ''r1'') \<in> set (sent_requests (call_trace (sample_http 200 []) ?c (CallGet ''r1'')))"
    by (simp add: sample_trace del: call_trace.simps)
  moreover have "TrimRight ''http://straw/'' (CHR ''/'') = ''http://straw''" by code_simp
  ultimately show ?thesis using client_requests_authorized by fastforce
qed

section \<open>Responses\<close>

lemma new_client_never_panics: "\<not> call_panics env (NewClient env base key opts) call"
proof -
  obtain h where "cl_httpClient (NewClient env base key opts) = Some h" using NewClient_has_client by blast
  then show ?thesis
    by (cases call) (auto simp: call_defs decoded_def split: option.splits sum.splits prod.splits)
qed

text \<open>C38: The body of every response a call receives is closed exactly once, after the request, unless a
  download hands it open to its caller, which happens for the status 200 only.\<close>
theorem response_body_closed_or_handed_over:
  assumes "call_answer env c call = Some (Inr resp)"
  shows "if hands_over call resp
    then (\<exists>rid req. call = CallDownload rid \<and> DownloadReceipt env c rid = (Returned (Some (hs_Body resp)) None, [Sent req]))
    else (\<exists>req. call_trace env c call = [Sent req, BodyClosed])"
proof (cases "hands_over call resp")
  case True
  then obtain rid where call: "call = CallDownload rid" "hs_StatusCode resp = 200"
    by (auto simp: hands_over_def split: api_call.splits)
  then have "DownloadReceipt env c rid = (Returned (Some (hs_Body resp)) None, [Sent (call_request c call)])"
    using assms by (auto simp: call_defs split: option.splits)
  then show ?thesis using True call(1) by auto
next
  case False
  then show ?thesis using assms by (simp add: call_trace_eq)
qed

lemma response_body_closed_or_handed_over_witness:
  "\<exists>req. call_trace (sample_http 404 []) (NewClient (sample_http 404 []) ''http://straw'' [] []) (CallDownload ''r1'')
     = [Sent req, BodyClosed]"
  using response_body_closed_or_handed_over [OF sample_answer [of 404 "[]" "''http://straw''" "[]" "CallDownload ''r1''"]]
  by (simp add: hands_over_def)

text \<open>The answer to \<open>Do\<close>.\<close>

lemma Do_outcome:
  "fst (Do env c r) =
     (case he_NewRequest env ''POST'' (call_url c (CallDo r)) of
        Some err \<Rightarrow> Returned None (Some (Wrapped ''build API request'' (Cause err)))
      | None \<Rightarrow>
          (case call_answer env c (CallDo r) of
             None \<Rightarrow> Panicked
           | Some (Inl err) \<Rightarrow> Returned None (Some (Wrapped ''send API request'' (Cause err)))
           | Some (Inr resp) \<Rightarrow> decoded (decodeAPIResponse resp (Some dec_Response) zero_Response)))"
  by (simp add: call_defs split: option.split sum.split)

lemma decoded_success:
  "decoded (decodeAPIResponse resp (Some d) v) = Returned (Some x) None \<longleftrightarrow>
     200 \<le> hs_StatusCode resp \<and> hs_StatusCode resp < 300 \<and>
     (\<exists>raw. hs_Body resp = Inr raw \<and> (if raw = [] then x = v else json_Unmarshal d raw v = (None, x)))"
  by (auto simp: decoded_def decodeAPIResponse_def split: sum.splits prod.splits option.splits if_splits)

lemma decoded_value_or_error:
  "decoded p = Returned v e \<Longrightarrow> (v = None) \<noteq> (e = None)"
  by (auto simp: decoded_def split: prod.splits option.splits)

text \<open>C36: \<open>Do\<close> returns a response exactly when the server answered with a 2xx status and a body that could
  be read and is empty or decodes as a response without a type error; the response is then the
  decoded one.\<close>
theorem do_succeeds_iff:
  "fst (Do env c r) = Returned (Some x) None \<longleftrightarrow>
     (\<exists>resp raw. call_answer env c (CallDo r) = Some (Inr resp)
        \<and> 200 \<le> hs_StatusCode resp \<and> hs_StatusCode resp < 300 \<and> hs_Body resp = Inr raw
        \<and> (if raw = [] then x = zero_Response else json_Unmarshal dec_Response raw zero_Response = (None, x)))"
proof -
  have "call_answer env c (CallDo r) = None" if "he_NewRequest env ''POST'' (call_url c (CallDo r)) = Some err" for err
    using that by (simp add: call_answer_def)
  then show ?thesis
    by (auto simp: Do_outcome decoded_success split: option.splits sum.splits)
qed

text \<open>C35: What \<open>Do\<close> puts on the wire, read back by the decoder of the same field tags, is the request
  itself with its replayability resolved: the override when there is one, else true for the
  methods GET, HEAD and OPTIONS, else the flag.\<close>
theorem request_read_back:
  assumes "valid_request r" and "req \<in> set (sent_requests (snd (Do env c r)))"
  shows "\<exists>raw. hq_Body req = Some raw \<and> hq_ContentLength req = ulen raw
    \<and> header_of ''Content-Type'' req = Some ''application/json''
    \<and> json_Unmarshal dec_Request raw zero_Request =
        (None, r\<lparr>rq_Replayable := effectiveReplayable r, rq_ReplayableOverride := None\<rparr>)"
proof -
  have "req = call_request c (CallDo r)"
    using assms(2) call_trace_eq [of env c "CallDo r"] by (auto split: option.splits sum.splits if_splits)
  then show ?thesis
    using read_back_Request [OF assms(1)]
    by (simp add: call_request_def call_message_def authorize_header resolved_def) (simp add: newRequest_def)
qed

lemma sample_api_request_valid: "valid_request sample_api_request"
  by (simp add: valid_request_def sample_api_request_def zero_Request_def valid_utf8_ascii)

lemma request_read_back_witness:
  "\<exists>raw. json_Unmarshal dec_Request raw zero_Request = (None, sample_api_request\<lparr>rq_Replayable := True\<rparr>)"
proof -
  let ?c = "NewClient (sample_http 200 []) ''http://straw'' [] []"
  have "call_request ?c (CallDo sample_api_request) \<in> set (sent_requests (snd (Do (sample_http 200 []) ?c sample_api_request)))"
    using sample_trace [of 200 "[]" "''http://straw''" "[]" "CallDo sample_api_request"] by simp
  then have "\<exists>raw. json_Unmarshal dec_Request raw zero_Request = (None, sample_api_request\<lparr>rq_Replayable
      := effectiveReplayable sample_api_request, rq_ReplayableOverride := None\<rparr>)"
    using request_read_back [OF sample_api_request_valid] by blast
  then show ?thesis by (simp add: effectiveReplayable_def sample_api_request_def zero_Request_def)
qed

text \<open>C39: Every answer outside 2xx is an error. When its body can be read, it becomes an \<open>APIError\<close> with the
  status and the error envelope of the body, field by field, even when some fields have the wrong type; a
  body that is no JSON at all leaves the envelope empty, and then the text of the error is empty. When
  its body can not be read, it is the wrapped error of the reader.\<close>
theorem api_error_carries_envelope:
  assumes "call_answer env c call = Some (Inr \<lparr>hs_StatusCode = status, hs_Body = body\<rparr>)"
    and "status < 200 \<or> 300 \<le> status"
  shows "case body of
      Inl err \<Rightarrow> call_failure env c call = Some (Wrapped ''read API response'' (Cause err))
    | Inr raw \<Rightarrow> (\<exists>e. call_failure env c call = Some (APIErr e) \<and> ae_HTTPStatus e = status
        \<and> (case parse_json raw of
              None \<Rightarrow> ae_Response e = zero_ErrorResponse \<and> APIError_Error e = []
            | Some j \<Rightarrow> ae_Response e = snd (dec_ErrorResponse j zero_ErrorResponse)))"
proof (cases body)
  case (Inl err)
  then show ?thesis
    using assms by (cases call) (auto simp: call_defs decoded_def decodeAPIResponse_def split: option.splits)
next
  case (Inr raw)
  have "call_failure env c call =
      Some (APIErr \<lparr>ae_HTTPStatus = status, ae_Response = snd (json_Unmarshal dec_ErrorResponse raw zero_ErrorResponse)\<rparr>)"
    using assms Inr by (cases call) (auto simp: call_defs decoded_def decodeAPIResponse_def split: option.splits)
  then show ?thesis using Inr
    by (auto simp: json_Unmarshal_def APIError_Error_def zero_ErrorResponse_def case_prod_beta split: option.splits)
qed

lemma api_error_carries_envelope_witness:
  "\<exists>e. call_failure (sample_http 502 ''x'') (NewClient (sample_http 502 ''x'') ''http://straw'' [] []) (CallGet ''r1'')
      = Some (APIErr e) \<and> ae_HTTPStatus e = 502 \<and> APIError_Error e = []"
proof -
  have "parse_json ''x'' = None" by code_simp
  then show ?thesis
    using api_error_carries_envelope [OF sample_answer [of 502 "''x''" "''http://straw''" "[]" "CallGet ''r1''"]] by auto
qed

text \<open>A download answered with a 2xx status other than 200 returns neither a body nor an error.\<close>
lemma download_loses_other_success:
  assumes "call_answer env c (CallDownload rid) = Some (Inr \<lparr>hs_StatusCode = status, hs_Body = Inr raw\<rparr>)"
    and "200 < status" and "status < 300"
  shows "fst (DownloadReceipt env c rid) = Returned None None"
  using assms by (auto simp: call_defs decodeAPIResponse_def split: option.splits)

lemma download_loses_other_success_witness:
  "fst (DownloadReceipt (sample_http 206 ''part'') (NewClient (sample_http 206 ''part'') ''http://straw'' [] []) ''r1'')
     = Returned None None"
  using download_loses_other_success
    [OF sample_answer [of 206 "''part''" "''http://straw''" "[]" "CallDownload ''r1''"]] by simp

end
