(* ===== verification/Spec2Isabelle.thy ===== *)
theory Spec2Isabelle
  imports Response_Stream Body_Ref Subjects Admission Worker_Drain Request_Run Runtime_Safety Client_Safety
begin

text \<open>
  The Straw SDK for Go: the egress worker (package \<open>egress\<close>) and the client of the public API
  (package \<open>straw\<close>).

  \<^bold>\<open>The program.\<close> A worker registers with Control over NATS and gets a session (\<open>Register\<close>,
  \<open>registerWithRetry\<close>, \<open>Run\<close> in \<open>egress/runtime.go\<close>). While the session lives it sends heartbeats,
  obeys configuration snapshots, and serves assignments (\<open>Worker\<close> in \<open>egress/assignment.go\<close>). An
  assignment that is admitted (\<open>EvaluateAssignment\<close>, \<open>egress/types.go\<close>) opens a stream: frames from
  Control go through \<open>streamValidator\<close> (\<open>egress/stream.go\<close>), first into the request body
  (\<open>readRequestBody\<close>, with bodies by reference through \<open>egress/bodyref.go\<close>), then either to
  \<open>waitForResult\<close> beside the executor, whose output is cut to the download credit
  (\<open>responseCreditGate\<close>), or into a raw tunnel with its two goroutines. The client side
  (\<open>client.go\<close>, \<open>types.go\<close>) is separate: JSON over HTTP.

  \<^bold>\<open>Theories and sources.\<close>
  \<^item> \<open>Straw_Prelude\<close>: machine types, gates (locales \<open>frame_gate\<close>, \<open>once_gate\<close>), runs of step
    functions, components that wind down (locale \<open>winding_down\<close>).
  \<^item> \<open>Wire\<close>: the messages of the protobuf module as far as the sources use them, the envelope codec
    (\<open>types.go\<close>) over a marshaller that is a parameter.
  \<^item> \<open>Stream_Validator\<close>: all of \<open>stream.go\<close>. \<open>wf_stream\<close> is the abstract stream, \<open>at_position\<close> the
    simulation relation.
  \<^item> \<open>Credit_Gate\<close>, \<open>Response_Stream\<close>: \<open>responseCreditGate\<close>, \<open>publishResponseData\<close>,
    \<open>publishResponseProgress\<close>, the \<open>send\<close> closure, \<open>applyCancellation\<close> (locale \<open>credit_source\<close>).
  \<^item> \<open>Go_Strings\<close>, \<open>Body_Ref\<close>: strings, UTF-8 and SHA-256 as the sources use them; \<open>bodyref.go\<close>
    (locale \<open>body_ref_resolver\<close>).
  \<^item> \<open>Request_Body\<close>: \<open>requestBodyState\<close> and \<open>readRequestBody\<close>. The resolver may answer each call
    differently, and its calls are recorded.
  \<^item> \<open>Subjects\<close>: tokens, subjects and configuration checks of \<open>types.go\<close> (locale \<open>token_alphabet\<close>).
  \<^item> \<open>Admission\<close>: \<open>Capacity\<close>, \<open>EvaluateAssignment\<close>, \<open>capacityFromConcurrency\<close>.
  \<^item> \<open>Worker_Base\<close>: the construction of a \<open>Worker\<close>, its operations under the lock, replies and frames.
  \<^item> \<open>Request_Step\<close>: the goroutine of a request as a state machine over the steps of the body reader,
    the execution and the tunnel, shown to agree with \<open>runDecodedRequest\<close>.
  \<^item> \<open>Worker\<close>, \<open>Worker_Safety\<close>: the worker as a step relation. \<open>handleAssign\<close> is cut where another
    goroutine can run between two of its steps, the delivery of the message being the first; the steps of
    each request in flight, its release once its run has ended, \<open>Serve\<close> and \<open>SetDraining\<close> are the
    other events.
  \<^item> \<open>Worker_Drain\<close>: the wait of \<open>Serve\<close> after \<open>abandonInFlight\<close>.
  \<^item> \<open>Decoded_Run\<close>, \<open>Decoded_Safety\<close>: \<open>runDecodedRequest\<close>, the executor goroutine and \<open>waitForResult\<close>.
  \<^item> \<open>Tunnel\<close>, \<open>Tunnel_Safety\<close>: \<open>runRawTunnel\<close>, the loop, the download goroutine, the frame builder.
  \<^item> \<open>Request_Run\<close>: a request from its body to the execution or the tunnel.
  \<^item> \<open>Runtime\<close>, \<open>Runtime_Safety\<close>: \<open>runtime.go\<close> and the messages it builds (locale \<open>runtime_controller\<close>).
  \<^item> \<open>Json\<close>, \<open>Json_Roundtrip\<close>: what the sources use of \<open>encoding/json\<close> (locale \<open>json_message\<close>).
  \<^item> \<open>Client_Types\<close>, \<open>Client\<close>, \<open>Client_Safety\<close>: \<open>types.go\<close> and \<open>client.go\<close> of package \<open>straw\<close>.

  \<^bold>\<open>Conventions.\<close> Integers have their width (\<open>u32\<close>, \<open>u64\<close>, \<open>i64\<close>), a slice length is below
  \<open>2 ^ 63\<close> where it matters (\<open>go_slice\<close>, \<open>sliced\<close>). Times and durations are nanoseconds and arguments.
  What a select or a callback may meet is a list of events, so a statement about all lists covers
  all schedules: sequential loops take the list and return what is left of it
  (\<open>readRequestBody\<close>, \<open>takeAvailable\<close>, \<open>runHeartbeatLoop\<close>); concurrent components have a partial step
  function on events, run by \<open>run_steps\<close>, where an event that is not enabled ends the run. A loop
  still waiting at the end of its list returns a value of its own (\<open>BodyWaiting\<close>, \<open>StillRegistering\<close>),
  never a result. Errors are values of the code's own errors.

  \<^bold>\<open>What is shown.\<close> The validator accepts exactly the well-formed streams, once and in order, and
  accounts for every byte. The request body is the stream; a referenced body is taken only in scope and
  verified. The response stays within the credit in every interleaving, is well formed, and the
  result that ends it is the executor's. A tunnel is faithful in both directions and within its
  credits. The worker keeps its limit, answers each assignment once, listens before it accepts,
  and once it has abandoned its requests \<open>Serve\<close> returns after a bounded number of steps in every order of
  them, unless a request is blocked in \<open>grant\<close>; then it does not (\<open>stuck_request_keeps_serve\<close>). The runtime registers, retries, reports, obeys snapshots and releases what
  it holds. The client sends what it is given, with the right credentials, and closes what it opens.
  Some lemmas state limits of the code instead: \<open>upload_beyond_credit_never_completes\<close>,
  \<open>full_grant_channel_loses_result\<close>, \<open>tunnel_frames_can_overtake\<close>, \<open>accepted_after_return\<close>,
  \<open>unsized_reference_truncated\<close>, \<open>download_loses_other_success\<close>.

  \<^bold>\<open>Bounds.\<close> The JSON parser takes fuel; \<open>2 * length s + 2\<close> units are enough for every text \<open>s\<close>
  (\<open>parse_fuel_enough\<close>). Brackets nest at most 10000 deep, as in Go. The steps of a drain are
  bounded by \<open>drain_work\<close>, a measure of the state. All other recursions terminate
  on their data.

  \<^bold>\<open>Parameters.\<close> The protobuf codec, \<open>SignRegistration\<close> and \<open>AssignRequest.Validate\<close> (another
  module), the NATS connection, the HTTP exchange and its check of URLs, the random generator, the range
  tables of Unicode above Latin-1, the answers of a body-reference resolver, and what an executor, a tunnel
  connection or a clock does. A heartbeat meets a context, a connection and a server that are those of its
  moment; its error is computed from them.

  \<^bold>\<open>Not modelled.\<close> The example program, the package comments and the tests; logging; the texts of
  wrapped errors on the egress side (the client's are kept). Published frames and acknowledgements are
  those handed to \<open>publish\<close>; that one stops at the first failure is stated of \<open>publish\<close> only. The order
  in which \<open>abandonInFlight\<close> walks its map is that of the association list. Of \<open>encoding/json\<close>, stale
  elements that a repeated key of an array would find beyond the length of a slice are taken as zero.
\<close>

end
